theory Spec2Isabelle
  imports Main "HOL-Library.Word"
begin

section \<open>The ephemeral store\<close>

text \<open>
  The handlers keep one-time codes and rate-limit counters in Redis. The store is modelled
  as its logical keyspace: every key holds a value and an optional expiry instant of the
  server clock, in milliseconds. A key whose expiry instant has passed is absent for every
  command (Redis treats a key as expired once the clock is strictly greater than the
  instant), whether or not the server has reclaimed it yet.

  Two kinds of value occur: a string holding a decimal integer (written by \<open>SET key 1\<close> and
  \<open>INCR\<close>), and a hash of string fields (written by \<open>HSET\<close>). A command applied to the
  wrong kind of value fails with \<open>WRONGTYPE\<close>, and \<open>INCR\<close> fails when the 64-bit
  counter would overflow. Failures of the transport (timeouts, a server that is down) are
  not part of the model.
\<close>

type_synonym mstime = nat

datatype rvalue = RInt int | RHash "string \<rightharpoonup> string"

record entry =
  val :: rvalue
  expire_at :: "mstime option"

type_synonym redis = "string \<rightharpoonup> entry"

datatype redis_error = WRONGTYPE | IncrOverflow

definition lookupKey :: "mstime \<Rightarrow> string \<Rightarrow> redis \<Rightarrow> entry option" where
  "lookupKey now k s =
     (case s k of
        None \<Rightarrow> None
      | Some e \<Rightarrow>
          (case expire_at e of
             None \<Rightarrow> Some e
           | Some t \<Rightarrow> if t < now then None else Some e))"

definition redis_EXISTS :: "mstime \<Rightarrow> string \<Rightarrow> redis \<Rightarrow> int" where
  "redis_EXISTS now k s = (case lookupKey now k s of None \<Rightarrow> 0 | Some _ \<Rightarrow> 1)"

definition redis_SET_EX :: "mstime \<Rightarrow> string \<Rightarrow> int \<Rightarrow> int \<Rightarrow> redis \<Rightarrow> redis" where
  "redis_SET_EX now k v secs s =
     s(k \<mapsto> \<lparr>val = RInt v, expire_at = Some (now + nat secs * 1000)\<rparr>)"

definition redis_INCR :: "mstime \<Rightarrow> string \<Rightarrow> redis \<Rightarrow> redis_error + (int \<times> redis)" where
  "redis_INCR now k s =
     (case lookupKey now k s of
        None \<Rightarrow> Inr (1, s(k \<mapsto> \<lparr>val = RInt 1, expire_at = None\<rparr>))
      | Some e \<Rightarrow>
          (case val e of
             RHash _ \<Rightarrow> Inl WRONGTYPE
           | RInt n \<Rightarrow>
               if n \<ge> 2 ^ 63 - 1 then Inl IncrOverflow
               else Inr (n + 1, s(k \<mapsto> e\<lparr>val := RInt (n + 1)\<rparr>))))"

definition redis_TTL :: "mstime \<Rightarrow> string \<Rightarrow> redis \<Rightarrow> int" where
  "redis_TTL now k s =
     (case lookupKey now k s of
        None \<Rightarrow> - 2
      | Some e \<Rightarrow>
          (case expire_at e of
             None \<Rightarrow> - 1
           | Some t \<Rightarrow> (int t - int now + 500) div 1000))"



definition redis_HGETALL :: "mstime \<Rightarrow> string \<Rightarrow> redis \<Rightarrow> redis_error + (string \<rightharpoonup> string)" where
  "redis_HGETALL now k s =
     (case lookupKey now k s of
        None \<Rightarrow> Inr Map.empty
      | Some e \<Rightarrow>
          (case val e of
             RInt _ \<Rightarrow> Inl WRONGTYPE
           | RHash h \<Rightarrow> Inr h))"

section \<open>Rate limiting of OTP requests\<close>

text \<open>
  \<open>otpRateLimitScript\<close> is the Lua script of the source, run by the server as one command:
  it takes the store from one state to the next and replies with the pair
  \<open>{count, ttl}\<close>. A failing \<open>redis.call\<close> aborts the script with that error.
\<close>

definition otpRateLimitMax :: int where
  "otpRateLimitMax = 3"

definition otpRateLimitWindow :: int where
  "otpRateLimitWindow = 10 * 60 * 1000000000"

definition time_Second :: int where
  "time_Second = 1000000000"

definition otpRateLimitScript :: "mstime \<Rightarrow> string \<Rightarrow> int \<Rightarrow> redis \<Rightarrow> (redis_error + int list) \<times> redis" where
  "otpRateLimitScript now key win s =
     (let exists = redis_EXISTS now key s in
      if exists = 0 then (Inr [1, win], redis_SET_EX now key 1 win s)
      else
        (case redis_INCR now key s of
           Inl e \<Rightarrow> (Inl e, s)
         | Inr (newCount, s') \<Rightarrow> (Inr [newCount, redis_TTL now key s'], s')))"

datatype rl_error = ScriptError redis_error | UnexpectedResult

definition allowOTPRequest :: "mstime \<Rightarrow> string \<Rightarrow> redis \<Rightarrow> (rl_error + bool) \<times> redis" where
  "allowOTPRequest now phone cache =
     (let key = ''rl:otp:'' @ phone;
          winSec = otpRateLimitWindow div time_Second in
      case otpRateLimitScript now key winSec cache of
        (Inl err, cache') \<Rightarrow> (Inl (ScriptError err), cache')
      | (Inr arr, cache') \<Rightarrow>
          if length arr \<noteq> 2 then (Inl UnexpectedResult, cache')
          else
            (let count = arr ! 0;
                 allowed = (count \<le> otpRateLimitMax)
             in (Inr allowed, cache')))"

text \<open>
  A run of requests for one phone number, each at its own instant of the server clock.
  For every request the run records the answer of \<open>allowOTPRequest\<close> and the counter
  entry that is live right after it.
\<close>

fun requests :: "string \<Rightarrow> mstime list \<Rightarrow> redis \<Rightarrow> ((rl_error + bool) \<times> entry option) list" where
  "requests phone [] cache = []"
| "requests phone (t # ts) cache =
     (case allowOTPRequest t phone cache of
        (r, cache') \<Rightarrow> (r, lookupKey t (''rl:otp:'' @ phone) cache') # requests phone ts cache')"

definition window_ms :: nat where
  "window_ms = 600000"

definition nth_request :: "mstime \<Rightarrow> nat \<Rightarrow> (rl_error + bool) \<times> entry option" where
  "nth_request t0 i =
     (Inr (int (Suc i) \<le> 3), Some \<lparr>val = RInt (int (Suc i)), expire_at = Some (t0 + window_ms)\<rparr>)"

section \<open>One-time codes\<close>

subsection \<open>Decimal rendering\<close>

text \<open>
  \<open>decimal\<close> writes a natural number in base ten without leading zeros, as
  \<open>strconv.FormatInt\<close> and the verb \<open>%d\<close> do. \<open>Sprintf_04d\<close> is
  \<open>fmt.Sprintf("%04d", i)\<close>: zero padding up to a width of four, the sign counting
  towards the width.
\<close>

definition digit_char :: "nat \<Rightarrow> char" where
  "digit_char d = char_of (48 + d)"

fun decimal :: "nat \<Rightarrow> string" where
  "decimal n = (if n < 10 then [digit_char n] else decimal (n div 10) @ [digit_char (n mod 10)])"

declare decimal.simps [simp del]

definition Sprintf_04d :: "int \<Rightarrow> string" where
  "Sprintf_04d i =
     (if i < 0
      then CHR ''-'' # replicate (3 - length (decimal (nat (- i)))) CHR ''0'' @ decimal (nat (- i))
      else replicate (4 - length (decimal (nat i))) CHR ''0'' @ decimal (nat i))"

subsection \<open>Generation\<close>

text \<open>
  \<open>generateOTP\<close> takes the outcome of \<open>rand.Read\<close> on its two-byte buffer: an error,
  on which the process exits through \<open>log.Fatal\<close> (the result \<open>None\<close>), or the two
  bytes drawn.
\<close>

definition generateOTP :: "string + 8 word \<times> 8 word \<Rightarrow> string option" where
  "generateOTP rand_Read =
     (case rand_Read of
        Inl err \<Rightarrow> None
      | Inr (otp0, otp1) \<Rightarrow> Some (Sprintf_04d (uint otp0 mod 10000)))"

subsection \<open>Storage and verification\<close>

datatype otp_error = StoreFailed redis_error | InvalidOrExpiredOTP | InvalidOTP

definition map_index :: "(string \<rightharpoonup> string) \<Rightarrow> string \<Rightarrow> string" where
  \<comment> \<open>Indexing a Go map of strings: a missing key reads as the empty string.\<close>
  "map_index m k = (case m k of None \<Rightarrow> [] | Some v \<Rightarrow> v)"


definition verifyOTPInRedis :: "mstime \<Rightarrow> string \<Rightarrow> string \<Rightarrow> redis \<Rightarrow> otp_error option \<times> redis" where
  "verifyOTPInRedis now phoneNumber otp cache =
     (case redis_HGETALL now phoneNumber cache of
        Inl err \<Rightarrow> (Some InvalidOrExpiredOTP, cache)
      | Inr data \<Rightarrow>
          if map_index data ''otp'' \<noteq> otp then (Some InvalidOTP, cache)
          else (None, cache))"



section \<open>The identity store\<close>

text \<open>
  The \<open>users\<close> table of the migration: \<open>id bigserial PRIMARY KEY\<close>, \<open>created_at\<close>
  defaulting to the clock of the database, \<open>phone_number text UNIQUE NOT NULL\<close>. The
  sequence behind \<open>id\<close> advances on every insert, also on one that fails.
\<close>

record user =
  ID :: "64 word"
  CreatedAt :: int
  PhoneNumber :: string

record users_table =
  rows :: "user list"
  next_id :: int

datatype db_error = ErrNoRows | ErrRecordNotFound | UniqueViolation | SequenceExhausted

definition Insert :: "int \<Rightarrow> user \<Rightarrow> users_table \<Rightarrow> (db_error + user) \<times> users_table" where
  "Insert dbnow u tbl =
     (if next_id tbl > 2 ^ 63 - 1 then (Inl SequenceExhausted, tbl)
      else
        (let tbl1 = tbl\<lparr>next_id := next_id tbl + 1\<rparr>;
             row = \<lparr>ID = word_of_int (next_id tbl), CreatedAt = dbnow, PhoneNumber = PhoneNumber u\<rparr>
         in if find (\<lambda>r. PhoneNumber r = PhoneNumber row \<or> ID r = ID row) (rows tbl) \<noteq> None
            then (Inl UniqueViolation, tbl1)
            else (Inr row, tbl1\<lparr>rows := rows tbl @ [row]\<rparr>)))"

definition GetByPhoneNumber :: "string \<Rightarrow> users_table \<Rightarrow> db_error + user" where
  "GetByPhoneNumber phoneNumber tbl =
     (case find (\<lambda>r. PhoneNumber r = phoneNumber) (rows tbl) of
        None \<Rightarrow> Inl ErrNoRows
      | Some r \<Rightarrow> Inr r)"

definition GetByID :: "64 word \<Rightarrow> users_table \<Rightarrow> db_error + user" where
  "GetByID uid tbl =
     (case find (\<lambda>r. ID r = uid) (rows tbl) of
        None \<Rightarrow> Inl ErrRecordNotFound
      | Some r \<Rightarrow> Inr r)"

text \<open>
  \<open>createUserIfNotExists\<close> issues two statements, a lookup and an insert. Other requests
  are served at the same time, so the table may change between the two: the argument
  \<open>concurrent\<close> is what the other flows commit after the lookup and before the insert
  (the identity when nothing else runs).
\<close>

datatype register_error = FailedToCreateUser db_error

definition createUserIfNotExists ::
  "int \<Rightarrow> (users_table \<Rightarrow> users_table) \<Rightarrow> string \<Rightarrow> users_table \<Rightarrow> (register_error + user) \<times> users_table" where
  "createUserIfNotExists dbnow concurrent phoneNumber tbl =
     (case GetByPhoneNumber phoneNumber tbl of
        Inr u \<Rightarrow> (Inr u, tbl)
      | Inl _ \<Rightarrow>
          (let newUser = \<lparr>ID = 0, CreatedAt = 0, PhoneNumber = phoneNumber\<rparr> in
           case Insert dbnow newUser (concurrent tbl) of
             (Inl err, tbl') \<Rightarrow> (Inl (FailedToCreateUser err), tbl')
           | (Inr newUser', tbl') \<Rightarrow> (Inr newUser', tbl')))"

definition other_signup :: "int \<Rightarrow> string \<Rightarrow> users_table \<Rightarrow> users_table" where
  \<comment> \<open>A concurrent verification of the same phone number that commits its insert.\<close>
  "other_signup dbnow phoneNumber tbl =
     snd (Insert dbnow \<lparr>ID = 0, CreatedAt = 0, PhoneNumber = phoneNumber\<rparr> tbl)"

section \<open>Bearer tokens\<close>

subsection \<open>Integers as decimal strings\<close>

definition FormatInt :: "int \<Rightarrow> string" where
  "FormatInt i = (if i < 0 then CHR ''-'' # decimal (nat (- i)) else decimal (nat i))"

datatype num_error = ErrSyntax | ErrRange

definition is_digit :: "char \<Rightarrow> bool" where
  "is_digit c = (48 \<le> (of_char c :: nat) \<and> (of_char c :: nat) \<le> 57)"

fun ParseUint_loop :: "nat \<Rightarrow> string \<Rightarrow> num_error + nat" where
  "ParseUint_loop n [] = Inr n"
| "ParseUint_loop n (c # cs) =
     (if \<not> is_digit c then Inl ErrSyntax
      else if n \<ge> (2 ^ 64 - 1) div 10 + 1 then Inl ErrRange
      else
        (let n1 = n * 10 + (of_char c - 48)
         in if n1 > 2 ^ 64 - 1 then Inl ErrRange else ParseUint_loop n1 cs))"

definition ParseUint :: "string \<Rightarrow> num_error + nat" where
  "ParseUint s = (if s = [] then Inl ErrSyntax else ParseUint_loop 0 s)"

definition ParseInt :: "string \<Rightarrow> num_error + 64 word" where
  "ParseInt s =
     (if s = [] then Inl ErrSyntax
      else
        (let neg = (hd s = CHR ''-'');
             s1 = (if hd s = CHR ''+'' \<or> hd s = CHR ''-'' then tl s else s)
         in case ParseUint s1 of
              Inl err \<Rightarrow> Inl err
            | Inr un \<Rightarrow>
                if \<not> neg \<and> un \<ge> 2 ^ 63 then Inl ErrRange
                else if neg \<and> un > 2 ^ 63 then Inl ErrRange
                else Inr (if neg then - word_of_nat un else word_of_nat un)))"

subsection \<open>Issuing and validating\<close>

text \<open>
  Instants of the process clock (\<open>time.Now()\<close>) and durations are integers counting
  nanoseconds. A token is kept in its decoded form: the signing method named by its header,
  its registered claims and its signature. The functions of the JWT library that the
  source relies on are parameters: the keyed hash over header and claims, and the compact
  serialisation with its parser.
\<close>

datatype signing_method = HS256 | HS384 | HS512 | NonHMAC string

definition is_HMAC :: "signing_method \<Rightarrow> bool" where
  "is_HMAC m = (case m of NonHMAC _ \<Rightarrow> False | _ \<Rightarrow> True)"

record registered_claims =
  Subject :: string
  ExpiresAt :: "int option"
  NotBefore :: "int option"
  IssuedAt :: "int option"

record token =
  Method :: signing_method
  Claims :: registered_claims
  Signature :: string

record jwt_lib =
  hmac :: "signing_method \<Rightarrow> string \<Rightarrow> signing_method \<times> registered_claims \<Rightarrow> string"
  encode :: "token \<Rightarrow> string"
  decode :: "string \<Rightarrow> token option"

datatype jwt_error =
  ErrTokenMalformed | ErrTokenUnverifiable | ErrTokenSignatureInvalid
  | ErrTokenInvalidClaims | ErrInvalidKeyType

definition time_Hour :: int where
  "time_Hour = 3600 * time_Second"

definition NewNumericDate :: "int \<Rightarrow> int" where
  \<comment> \<open>The library keeps numeric dates at a precision of one second.\<close>
  "NewNumericDate t = t - t mod time_Second"

definition NewWithClaims :: "signing_method \<Rightarrow> registered_claims \<Rightarrow> token" where
  "NewWithClaims m c = \<lparr>Method = m, Claims = c, Signature = []\<rparr>"

definition sign :: "jwt_lib \<Rightarrow> token \<Rightarrow> string \<Rightarrow> token" where
  "sign lib tok key = tok\<lparr>Signature := hmac lib (Method tok) key (Method tok, Claims tok)\<rparr>"

definition SignedString :: "jwt_lib \<Rightarrow> token \<Rightarrow> string \<Rightarrow> jwt_error + string" where
  "SignedString lib tok key =
     (if is_HMAC (Method tok) then Inr (encode lib (sign lib tok key)) else Inl ErrInvalidKeyType)"

definition issued_claims :: "int \<Rightarrow> 64 word \<Rightarrow> int \<Rightarrow> registered_claims" where
  \<comment> \<open>The claims that \<open>generateJWT\<close> fills in.\<close>
  "issued_claims now userID ttl =
     \<lparr>Subject = FormatInt (sint userID),
      ExpiresAt = Some (NewNumericDate (now + ttl)),
      NotBefore = None,
      IssuedAt = Some (NewNumericDate now)\<rparr>"

definition generateJWT :: "jwt_lib \<Rightarrow> string \<Rightarrow> int \<Rightarrow> 64 word \<Rightarrow> int \<Rightarrow> jwt_error + string" where
  "generateJWT lib secret now userID ttl =
     (let claims = issued_claims now userID ttl;
          tok = NewWithClaims HS256 claims
      in SignedString lib tok secret)"

definition Validate :: "int \<Rightarrow> registered_claims \<Rightarrow> bool" where
  \<comment> \<open>The default validator: expiry and not-before, each only when present.\<close>
  "Validate now c =
     ((case ExpiresAt c of None \<Rightarrow> True | Some exp \<Rightarrow> now < exp) \<and>
      (case NotBefore c of None \<Rightarrow> True | Some nbf \<Rightarrow> \<not> now < nbf))"

definition keyFunc :: "string \<Rightarrow> token \<Rightarrow> string + string" where
  "keyFunc jwtSecret t =
     (if \<not> is_HMAC (Method t) then Inl ''unexpected signing method'' else Inr jwtSecret)"

definition ParseWithClaims :: "jwt_lib \<Rightarrow> int \<Rightarrow> string \<Rightarrow> (token \<Rightarrow> string + string) \<Rightarrow> jwt_error + token" where
  "ParseWithClaims lib now tokenStr kf =
     (case decode lib tokenStr of
        None \<Rightarrow> Inl ErrTokenMalformed
      | Some tok \<Rightarrow>
          (case kf tok of
             Inl _ \<Rightarrow> Inl ErrTokenUnverifiable
           | Inr key \<Rightarrow>
               if Signature tok \<noteq> hmac lib (Method tok) key (Method tok, Claims tok)
               then Inl ErrTokenSignatureInvalid
               else if \<not> Validate now (Claims tok) then Inl ErrTokenInvalidClaims
               else Inr tok))"

section \<open>HTTP handlers and middleware\<close>

text \<open>
  A response writer collects the headers and the one response written to it. A request
  carries its \<open>Authorization\<close> header (empty when the header is absent) and the user
  value of its context. The anonymous user is one fixed pointer in the source, and no
  record read from the table is ever that pointer: the two are different constructors.
  A handler either finishes with the writer it wrote to, or panics.
\<close>

datatype payload =
  ErrorMessage string
  | UserAuthenticated user string
  | ProtectedResource string string int

record response_writer =
  Header :: "string \<rightharpoonup> string list"
  written :: "(nat \<times> payload) option"

datatype ctx_user = AnonymousUser | StoredUser user

record request =
  Authorization :: string
  ctx_value :: "ctx_user option"

datatype outcome = Done response_writer | Panic string

type_synonym handler = "response_writer \<Rightarrow> request \<Rightarrow> outcome"

record application =
  cache :: redis
  models :: users_table
  jwtSecret :: string

definition Header_Add :: "string \<Rightarrow> string \<Rightarrow> response_writer \<Rightarrow> response_writer" where
  "Header_Add k v w =
     w\<lparr>Header := (Header w)(k \<mapsto> (case Header w k of None \<Rightarrow> [v] | Some vs \<Rightarrow> vs @ [v]))\<rparr>"

definition Header_Set :: "string \<Rightarrow> string \<Rightarrow> response_writer \<Rightarrow> response_writer" where
  "Header_Set k v w = w\<lparr>Header := (Header w)(k \<mapsto> [v])\<rparr>"

definition writeJSON :: "response_writer \<Rightarrow> nat \<Rightarrow> payload \<Rightarrow> response_writer" where
  "writeJSON w st body = (Header_Set ''Content-Type'' ''application/json'' w)\<lparr>written := Some (st, body)\<rparr>"

definition errorResponse :: "response_writer \<Rightarrow> nat \<Rightarrow> string \<Rightarrow> response_writer" where
  "errorResponse w st message = writeJSON w st (ErrorMessage message)"

definition contextSetUser :: "request \<Rightarrow> ctx_user \<Rightarrow> request" where
  "contextSetUser r u = r\<lparr>ctx_value := Some u\<rparr>"

definition SplitN2 :: "string \<Rightarrow> string list" where
  \<comment> \<open>\<open>strings.SplitN(s, " ", 2)\<close>: cut at the first space, if there is one.\<close>
  "SplitN2 s =
     (if CHR '' '' \<in> set s
      then [takeWhile (\<lambda>c. c \<noteq> CHR '' '') s, tl (dropWhile (\<lambda>c. c \<noteq> CHR '' '') s)]
      else [s])"

definition authenticate :: "jwt_lib \<Rightarrow> application \<Rightarrow> int \<Rightarrow> handler \<Rightarrow> handler" where
  "authenticate lib app now next w0 r =
     (let w = Header_Add ''Vary'' ''Authorization'' w0;
          auth = Authorization r
      in if auth = [] then next w (contextSetUser r AnonymousUser)
         else
           (let parts = SplitN2 auth in
            if length parts \<noteq> 2 \<or> parts ! 0 \<noteq> ''Bearer''
            then Done (errorResponse w 401 ''Invalid authorization header'')
            else
              (let tokenStr = parts ! 1 in
               case ParseWithClaims lib now tokenStr (keyFunc (jwtSecret app)) of
                 Inl err \<Rightarrow> Done (errorResponse w 401 ''Invalid or expired token'')
               | Inr parsed \<Rightarrow>
                   if Subject (Claims parsed) = []
                   then Done (errorResponse w 401 ''Invalid token claims'')
                   else
                     (case ParseInt (Subject (Claims parsed)) of
                        Inl err \<Rightarrow> Done (errorResponse w 401 ''Invalid token subject'')
                      | Inr userID \<Rightarrow>
                          (case GetByID userID (models app) of
                             Inl err \<Rightarrow> Done (errorResponse w 401 ''User not found'')
                           | Inr u \<Rightarrow> next w (contextSetUser r (StoredUser u)))))))"

definition requireAuthenticatedUser :: "handler \<Rightarrow> handler" where
  "requireAuthenticatedUser next w r =
     (case ctx_value r of
        None \<Rightarrow> Panic ''missing user context''
      | Some u \<Rightarrow>
          if u = AnonymousUser then Done (errorResponse w 401 ''Unauthorized'')
          else next w r)"

text \<open>
  The user that a request's credential stands for, following the words of the
  specification: the header is \<open>Bearer\<close>, one space and a token; the token parses,
  names an HMAC method, carries the signature made with the server's secret and is inside
  its validity period; its subject is the decimal id of a user of the table.
\<close>

definition bearer_user :: "jwt_lib \<Rightarrow> application \<Rightarrow> int \<Rightarrow> string \<Rightarrow> user option" where
  "bearer_user lib app now auth =
     (if take 7 auth \<noteq> ''Bearer '' then None
      else
        (case decode lib (drop 7 auth) of
           None \<Rightarrow> None
         | Some tok \<Rightarrow>
             if is_HMAC (Method tok)
                \<and> Signature tok = hmac lib (Method tok) (jwtSecret app) (Method tok, Claims tok)
                \<and> Validate now (Claims tok)
             then (case ParseInt (Subject (Claims tok)) of
                     Inl _ \<Rightarrow> None
                   | Inr uid \<Rightarrow>
                       (case GetByID uid (models app) of Inl _ \<Rightarrow> None | Inr u \<Rightarrow> Some u))
             else None))"

record verify_input =
  phone_number :: string
  otp_code :: string

record clock =
  redis_ms :: mstime
  wall_ns :: int
  db_ns :: int

text \<open>
  \<open>handleVerifyOTP\<close> receives the outcome of \<open>readJSON\<close> on the request body: an error,
  or the decoded fields.
\<close>

definition handleVerifyOTP ::
  "jwt_lib \<Rightarrow> clock \<Rightarrow> (users_table \<Rightarrow> users_table) \<Rightarrow> application \<Rightarrow> response_writer
     \<Rightarrow> string + verify_input \<Rightarrow> response_writer \<times> application" where
  "handleVerifyOTP lib clk concurrent app w body =
     (case body of
        Inl err \<Rightarrow> (errorResponse w 400 ''Invalid request payload'', app)
      | Inr input \<Rightarrow>
          if phone_number input = [] \<or> otp_code input = []
          then (errorResponse w 400 ''Phone number and OTP are required'', app)
          else
            (case verifyOTPInRedis (redis_ms clk) (phone_number input) (otp_code input) (cache app) of
               (Some err, cache') \<Rightarrow>
                 (errorResponse w 401 ''Invalid or expired OTP'', app\<lparr>cache := cache'\<rparr>)
             | (None, cache') \<Rightarrow>
                 (case createUserIfNotExists (db_ns clk) concurrent (phone_number input) (models app) of
                    (Inl err, tbl') \<Rightarrow>
                      (errorResponse w 500 ''Failed to register user'',
                       app\<lparr>cache := cache', models := tbl'\<rparr>)
                  | (Inr u, tbl') \<Rightarrow>
                      (case generateJWT lib (jwtSecret app) (wall_ns clk) (ID u) (48 * time_Hour) of
                         Inl err \<Rightarrow>
                           (errorResponse w 500 ''Failed to generate JWT'',
                            app\<lparr>cache := cache', models := tbl'\<rparr>)
                       | Inr jwtToken \<Rightarrow>
                           (writeJSON w 200 (UserAuthenticated u jwtToken),
                            app\<lparr>cache := cache', models := tbl'\<rparr>)))))"

definition status :: "response_writer \<Rightarrow> nat option" where
  "status w = map_option fst (written w)"


section \<open>Clients of the store that run at the same time\<close>

text \<open>
  The server executes the commands it receives one after the other, each at an instant of
  its clock, and a script counts as one command: nothing else is executed while it runs.
  \<open>execute\<close> is one such step. \<open>Script.Run\<close> of the client library sends the script
  by its digest and, when the server does not know it yet, once more in full; the command
  that finds the script runs it, and that command is \<open>Eval_otpRateLimitScript\<close> here, with
  the key and the window as its arguments.
\<close>

datatype redis_cmd =
  Exists_Cmd string
  | Set_Ex_Cmd string int int
  | Incr_Cmd string
  | Ttl_Cmd string
  | Eval_otpRateLimitScript string int

datatype reply =
  Status_OK
  | Integer_Reply int
  | Array_Reply "int list"
  | Error_Reply redis_error

definition script_reply :: "redis_error + int list \<Rightarrow> reply" where
  "script_reply r = (case r of Inl e \<Rightarrow> Error_Reply e | Inr arr \<Rightarrow> Array_Reply arr)"

definition execute :: "mstime \<Rightarrow> redis_cmd \<Rightarrow> redis \<Rightarrow> reply \<times> redis" where
  "execute now cmd s =
     (case cmd of
        Exists_Cmd k \<Rightarrow> (Integer_Reply (redis_EXISTS now k s), s)
      | Set_Ex_Cmd k v secs \<Rightarrow> (Status_OK, redis_SET_EX now k v secs s)
      | Incr_Cmd k \<Rightarrow>
          (case redis_INCR now k s of
             Inl e \<Rightarrow> (Error_Reply e, s)
           | Inr (n, s') \<Rightarrow> (Integer_Reply n, s'))
      | Ttl_Cmd k \<Rightarrow> (Integer_Reply (redis_TTL now k s), s)
      | Eval_otpRateLimitScript k win \<Rightarrow>
          (case otpRateLimitScript now k win s of (r, s') \<Rightarrow> (script_reply r, s')))"

text \<open>
  A call in flight is a process: it has returned a value, or it is about to send a command
  and goes on with the reply. \<open>allowOTPRequest_client\<close> is \<open>allowOTPRequest\<close> written
  that way: one command, the script, and the reading of its reply.
\<close>

datatype 'a client = Return 'a | Send redis_cmd "reply \<Rightarrow> 'a client"

definition allowOTPRequest_client :: "string \<Rightarrow> (rl_error + bool) client" where
  "allowOTPRequest_client phone =
     (let key = ''rl:otp:'' @ phone;
          winSec = otpRateLimitWindow div time_Second in
      Send (Eval_otpRateLimitScript key winSec)
        (\<lambda>res. case res of
           Error_Reply err \<Rightarrow> Return (Inl (ScriptError err))
         | Array_Reply arr \<Rightarrow>
             if length arr \<noteq> 2 then Return (Inl UnexpectedResult)
             else
               (let count = arr ! 0;
                    allowed = (count \<le> otpRateLimitMax)
                in Return (Inr allowed))
         | _ \<Rightarrow> Return (Inl UnexpectedResult)))"

text \<open>
  Two calls in flight against one store. A schedule lists, in the order in which the
  server executes them, whose pending command is executed and at which instant. Every
  interleaving of the commands of the two calls is a schedule. \<open>interleave\<close> follows a
  schedule and keeps the trace of the commands executed with their replies; a schedule
  that asks for a command of a call that has already returned is not a run (\<open>None\<close>).
\<close>

datatype caller = First | Second

type_synonym event = "caller \<times> mstime \<times> redis_cmd \<times> reply"

fun serve :: "mstime \<Rightarrow> 'a client \<Rightarrow> redis \<Rightarrow> (redis_cmd \<times> reply \<times> 'a client \<times> redis) option" where
  "serve now (Return v) s = None"
| "serve now (Send cmd cont) s =
     (case execute now cmd s of (rep, s') \<Rightarrow> Some (cmd, rep, cont rep, s'))"

fun interleave ::
  "(caller \<times> mstime) list \<Rightarrow> redis \<times> 'a client \<times> 'a client \<times> event list
     \<Rightarrow> (redis \<times> 'a client \<times> 'a client \<times> event list) option" where
  "interleave [] cfg = Some cfg"
| "interleave ((First, t) # sch) (s, a, b, tr) =
     (case serve t a s of
        None \<Rightarrow> None
      | Some (cmd, rep, a', s') \<Rightarrow> interleave sch (s', a', b, tr @ [(First, t, cmd, rep)]))"
| "interleave ((Second, t) # sch) (s, a, b, tr) =
     (case serve t b s of
        None \<Rightarrow> None
      | Some (cmd, rep, b', s') \<Rightarrow> interleave sch (s', a, b', tr @ [(Second, t, cmd, rep)]))"

definition replies :: "event list \<Rightarrow> reply list" where
  "replies tr = map (\<lambda>(w, t, cmd, rep). rep) tr"

text \<open>
  The limiter that the specification warns against, for comparison: the calls of the
  script sent by the application as separate commands, with the same decisions on the
  replies. Served with nothing in between it does what the script does; between its
  commands the server may execute those of another call.
\<close>

definition limiter_by_separate_calls :: "string \<Rightarrow> int \<Rightarrow> reply client" where
  "limiter_by_separate_calls key win =
     Send (Exists_Cmd key)
       (\<lambda>exists.
          if exists = Integer_Reply 0
          then Send (Set_Ex_Cmd key 1 win) (\<lambda>ok. Return (Array_Reply [1, win]))
          else Send (Incr_Cmd key)
                 (\<lambda>newCount.
                    case newCount of
                      Integer_Reply n \<Rightarrow>
                        Send (Ttl_Cmd key)
                          (\<lambda>ttl. case ttl of
                                   Integer_Reply x \<Rightarrow> Return (Array_Reply [n, x])
                                 | r \<Rightarrow> Return r)
                    | r \<Rightarrow> Return r))"

text \<open>
  A call served alone, all its commands at one instant (at most \<open>fuel\<close> of them).
\<close>

fun alone :: "nat \<Rightarrow> mstime \<Rightarrow> 'a client \<Rightarrow> redis \<Rightarrow> ('a \<times> redis) option" where
  "alone fuel now (Return v) s = Some (v, s)"
| "alone 0 now (Send cmd cont) s = None"
| "alone (Suc fuel) now (Send cmd cont) s =
     (case execute now cmd s of (rep, s') \<Rightarrow> alone fuel now (cont rep) s')"

section \<open>Sample values\<close>

text \<open>
  Concrete values for the closed instances of the theorems below: a user, an application
  state holding it, an empty response writer, a handler that answers 200, and a stand-in
  for the library's serialisation that writes the token issued at \<open>now\<close> for user 1 and
  time to live \<open>ttl\<close>, and no other token, as the string \<open>h.c.s\<close> and reads that
  string back as that token.
\<close>

definition example_user :: user where
  "example_user = \<lparr>ID = 1, CreatedAt = 0, PhoneNumber = ''+1234567890''\<rparr>"

definition example_app :: application where
  "example_app =
     \<lparr>cache = Map.empty, models = \<lparr>rows = [example_user], next_id = 2\<rparr>, jwtSecret = ''secret''\<rparr>"

definition example_writer :: response_writer where
  "example_writer = \<lparr>Header = Map.empty, written = None\<rparr>"

definition example_handler :: handler where
  "example_handler w r = Done (writeJSON w 200 (ProtectedResource ''Hello'' [] 0))"

definition example_lib :: "int \<Rightarrow> int \<Rightarrow> jwt_lib" where
  "example_lib now ttl =
     \<lparr>hmac = (\<lambda>m k p. ''mac''),
      encode = (\<lambda>t. if t = \<lparr>Method = HS256, Claims = issued_claims now 1 ttl, Signature = ''mac''\<rparr>
                    then ''h.c.s'' else ''x.x.x''),
      decode = [''h.c.s'' \<mapsto>
                  \<lparr>Method = HS256, Claims = issued_claims now 1 ttl, Signature = ''mac''\<rparr>]\<rparr>"

definition example_request :: "string \<Rightarrow> request" where
  "example_request auth = \<lparr>Authorization = auth, ctx_value = None\<rparr>"

section \<open>Properties of the rate limiter\<close>

lemma allowOTPRequest_fresh:
  assumes "lookupKey t (''rl:otp:'' @ phone) s = None"
  shows "allowOTPRequest t phone s =
           (Inr True, s(''rl:otp:'' @ phone \<mapsto> \<lparr>val = RInt 1, expire_at = Some (t + window_ms)\<rparr>))"
  using assms
  by (simp add: allowOTPRequest_def otpRateLimitScript_def redis_EXISTS_def redis_SET_EX_def
      otpRateLimitWindow_def time_Second_def otpRateLimitMax_def window_ms_def)

lemma allowOTPRequest_live:
  assumes "s (''rl:otp:'' @ phone) = Some \<lparr>val = RInt n, expire_at = Some e\<rparr>"
    and "t \<le> e" and "n < 2 ^ 63 - 1"
  shows "allowOTPRequest t phone s =
           (Inr (n + 1 \<le> 3), s(''rl:otp:'' @ phone \<mapsto> \<lparr>val = RInt (n + 1), expire_at = Some e\<rparr>))"
  using assms
  by (simp add: allowOTPRequest_def otpRateLimitScript_def redis_EXISTS_def redis_INCR_def
      lookupKey_def otpRateLimitMax_def)

lemma requests_live:
  assumes "s (''rl:otp:'' @ phone) = Some \<lparr>val = RInt n, expire_at = Some e\<rparr>"
    and "\<forall>t\<in>set ts. t \<le> e" and "n + int (length ts) \<le> 2 ^ 63 - 1"
  shows "requests phone ts s =
           map (\<lambda>i. (Inr (n + int (Suc i) \<le> 3),
                      Some \<lparr>val = RInt (n + int (Suc i)), expire_at = Some e\<rparr>)) [0..<length ts]"
  using assms
proof (induction ts arbitrary: s n)
  case Nil
  then show ?case by simp
next
  case (Cons t ts)
  let ?k = "''rl:otp:'' @ phone"
  let ?s' = "s(?k \<mapsto> \<lparr>val = RInt (n + 1), expire_at = Some e\<rparr>)"
  from Cons.prems have t: "t \<le> e" and n: "n < 2 ^ 63 - 1" by auto
  have step: "allowOTPRequest t phone s = (Inr (n + 1 \<le> 3), ?s')"
    by (rule allowOTPRequest_live) (use Cons.prems(1) t n in simp_all)
  have rest: "requests phone ts ?s' =
      map (\<lambda>i. (Inr ((n + 1) + int (Suc i) \<le> 3),
                 Some \<lparr>val = RInt ((n + 1) + int (Suc i)), expire_at = Some e\<rparr>)) [0..<length ts]"
    using Cons.prems by (intro Cons.IH) auto
  have live: "lookupKey t ?k ?s' = Some \<lparr>val = RInt (n + 1), expire_at = Some e\<rparr>"
    using t by (simp add: lookupKey_def)
  have shift: "[0..<length (t # ts)] = 0 # map Suc [0..<length ts]"
    by (simp add: upt_conv_Cons map_Suc_upt del: upt_Suc)
  show ?case
    unfolding shift using step rest live
    by (simp add: add.assoc del: upt_Suc)
qed

text \<open>
  C1. Take any phone number whose counter key is absent or expired at the instant \<open>t0\<close> of
  a request, and any further requests that fall inside the ten-minute window opened by it.
  The first request sets the counter to 1 with the window as its time to live and is
  allowed; the N-th request of the window leaves the counter at N; a request is allowed
  exactly when the new count is at most 3, and a refused request still increments. A key
  whose expiry instant has passed counts as absent, so the request after the window starts
  again at 1.
\<close>

theorem allowOTPRequest_counts_window:
  assumes fresh: "s (''rl:otp:'' @ phone) = None \<or>
                  (\<exists>v e. s (''rl:otp:'' @ phone) = Some \<lparr>val = v, expire_at = Some e\<rparr> \<and> e < t0)"
    and window: "\<forall>t\<in>set ts. t \<le> t0 + window_ms"
    and bound: "int (length ts) < 2 ^ 63 - 1"
  shows "requests phone (t0 # ts) s = map (nth_request t0) [0..<Suc (length ts)]"
proof -
  let ?k = "''rl:otp:'' @ phone"
  let ?e = "t0 + window_ms"
  let ?s' = "s(?k \<mapsto> \<lparr>val = RInt 1, expire_at = Some ?e\<rparr>)"
  from fresh have gone: "lookupKey t0 ?k s = None"
    by (auto simp: lookupKey_def)
  have first: "allowOTPRequest t0 phone s = (Inr True, ?s')"
    using allowOTPRequest_fresh [OF gone] .
  have live: "lookupKey t0 ?k ?s' = Some \<lparr>val = RInt 1, expire_at = Some ?e\<rparr>"
    by (simp add: lookupKey_def)
  have rest: "requests phone ts ?s' =
      map (\<lambda>i. (Inr (1 + int (Suc i) \<le> 3),
                 Some \<lparr>val = RInt (1 + int (Suc i)), expire_at = Some ?e\<rparr>)) [0..<length ts]"
    using window bound by (intro requests_live) auto
  have shift: "[0..<Suc (length ts)] = 0 # map Suc [0..<length ts]"
    by (simp add: upt_conv_Cons map_Suc_upt del: upt_Suc)
  show ?thesis
    unfolding shift using first live rest
    by (simp add: nth_request_def del: upt_Suc)
qed

theorem allowOTPRequest_counts_window_witness:
  "requests ''+1234567890'' [0, 1000, 2000, 600000] Map.empty =
     [(Inr True, Some \<lparr>val = RInt 1, expire_at = Some 600000\<rparr>),
      (Inr True, Some \<lparr>val = RInt 2, expire_at = Some 600000\<rparr>),
      (Inr True, Some \<lparr>val = RInt 3, expire_at = Some 600000\<rparr>),
      (Inr False, Some \<lparr>val = RInt 4, expire_at = Some 600000\<rparr>)] \<and>
   requests ''+1234567890'' [600001]
       [''rl:otp:+1234567890'' \<mapsto> \<lparr>val = RInt 4, expire_at = Some 600000\<rparr>] =
     [(Inr True, Some \<lparr>val = RInt 1, expire_at = Some 1200001\<rparr>)]"
proof -
  have a: "requests ''+1234567890'' (0 # [1000, 2000, 600000]) Map.empty =
             map (nth_request 0) [0..<Suc (length [1000, 2000, 600000 :: nat])]"
    by (rule allowOTPRequest_counts_window) (simp_all add: window_ms_def)
  have b: "requests ''+1234567890'' (600001 # [])
             [''rl:otp:+1234567890'' \<mapsto> \<lparr>val = RInt 4, expire_at = Some 600000\<rparr>] =
             map (nth_request 600001) [0..<Suc (length ([] :: nat list))]"
    by (rule allowOTPRequest_counts_window) (simp_all add: window_ms_def)
  have upt: "[0..<Suc (length [1000, 2000, 600000 :: nat])] = [0, 1, 2, 3]"
    by (simp add: upt_conv_Cons)
  show ?thesis
    using a b unfolding upt by (simp add: nth_request_def window_ms_def)
qed

section \<open>Properties of the one-time code challenge\<close>

lemma verifyOTPInRedis_frame: "snd (verifyOTPInRedis now phone code s) = s"
  by (simp add: verifyOTPInRedis_def split: sum.splits)

lemma verifyOTPInRedis_frame_pair:
  "verifyOTPInRedis now phone code s = (r, s') \<Longrightarrow> s' = s"
  using verifyOTPInRedis_frame [of now phone code s] by simp

lemma verifyOTPInRedis_ok_iff:
  "(fst (verifyOTPInRedis now phone code s) = None) =
     (case lookupKey now phone s of
        None \<Rightarrow> code = []
      | Some e \<Rightarrow> (case val e of RInt _ \<Rightarrow> False | RHash h \<Rightarrow> map_index h ''otp'' = code))"
  by (auto simp: verifyOTPInRedis_def redis_HGETALL_def map_index_def
      split: option.splits rvalue.splits)









lemma handleVerifyOTP_cache:
  "cache (snd (handleVerifyOTP lib clk conc app w body)) = cache app"
proof (cases body)
  case (Inl err)
  then show ?thesis by (simp add: handleVerifyOTP_def)
next
  case (Inr input)
  let ?v = "verifyOTPInRedis (redis_ms clk) (phone_number input) (otp_code input) (cache app)"
  let ?c = "createUserIfNotExists (db_ns clk) conc (phone_number input) (models app)"
  obtain r where v: "?v = (r, cache app)"
    using verifyOTPInRedis_frame [of "redis_ms clk" "phone_number input" "otp_code input" "cache app"]
    by (cases ?v) simp
  obtain res tbl' where c: "?c = (res, tbl')"
    by (cases ?c)
  show ?thesis
    using Inr v c
    by (simp add: handleVerifyOTP_def split: option.splits sum.splits)
qed

lemma status_writeJSON [simp]: "status (writeJSON w st body) = Some st"
  by (simp add: status_def writeJSON_def Header_Set_def)

lemma status_errorResponse [simp]: "status (errorResponse w st message) = Some st"
  by (simp add: errorResponse_def)







text \<open>
  C7. \<open>verifyOTPInRedis\<close> returns the store as it found it, whatever its verdict, and the
  whole of \<open>handleVerifyOTP\<close> leaves the cache untouched. So a code that verified once
  verifies again at any later instant at which the record has not yet expired.
\<close>

theorem verifyOTPInRedis_read_only:
  "snd (verifyOTPInRedis now phone code s) = s
   \<and> cache (snd (handleVerifyOTP lib clk conc app w body)) = cache app
   \<and> (fst (verifyOTPInRedis t1 phone code s) = None \<and> t1 \<le> t2 \<and> lookupKey t2 phone s \<noteq> None
        \<longrightarrow> fst (verifyOTPInRedis t2 phone code (snd (verifyOTPInRedis t1 phone code s))) = None)"
proof (intro conjI impI)
  show "snd (verifyOTPInRedis now phone code s) = s"
    by (rule verifyOTPInRedis_frame)
next
  show "cache (snd (handleVerifyOTP lib clk conc app w body)) = cache app"
    by (rule handleVerifyOTP_cache)
next
  assume a: "fst (verifyOTPInRedis t1 phone code s) = None \<and> t1 \<le> t2 \<and> lookupKey t2 phone s \<noteq> None"
  then obtain e where e: "lookupKey t2 phone s = Some e" by blast
  with a have "lookupKey t1 phone s = Some e"
    by (auto simp: lookupKey_def split: option.splits if_splits)
  with a e show "fst (verifyOTPInRedis t2 phone code (snd (verifyOTPInRedis t1 phone code s))) = None"
    by (simp add: verifyOTPInRedis_frame verifyOTPInRedis_ok_iff)
qed

theorem verifyOTPInRedis_read_only_witness:
  "fst (verifyOTPInRedis 119000 ''+1234567890'' ''0042''
          (snd (verifyOTPInRedis 1000 ''+1234567890'' ''0042''
             [''+1234567890'' \<mapsto> \<lparr>val = RHash [''otp'' \<mapsto> ''0042''], expire_at = Some 120000\<rparr>]))) = None"
proof -
  let ?p = "''+1234567890''"
  let ?s = "[?p \<mapsto> \<lparr>val = RHash [''otp'' \<mapsto> ''0042''], expire_at = Some 120000\<rparr>]"
  have "fst (verifyOTPInRedis 1000 ?p ''0042'' ?s) = None \<and> (1000 :: nat) \<le> 119000
          \<and> lookupKey 119000 ?p ?s \<noteq> None"
    by (simp add: verifyOTPInRedis_ok_iff lookupKey_def map_index_def)
  with verifyOTPInRedis_read_only [THEN conjunct2, THEN conjunct2, of 1000 ?p "''0042''" ?s 119000]
  show ?thesis by blast
qed

text \<open>
  C10. When \<open>HGETALL\<close> answers with the empty map and no error (nothing is stored for
  the phone number), \<open>verifyOTPInRedis\<close> returns no error exactly when the submitted code
  is the empty string. \<open>handleVerifyOTP\<close> answers a request whose code is empty with 400
  and leaves the application state as it was, whatever the store holds.
\<close>

theorem verifyOTPInRedis_absent_empty_code:
  assumes "redis_HGETALL now phone s = Inr Map.empty"
  shows "((fst (verifyOTPInRedis now phone code s) = None) = (code = []))
       \<and> handleVerifyOTP lib clk conc app w (Inr \<lparr>phone_number = p, otp_code = []\<rparr>) =
           (errorResponse w 400 ''Phone number and OTP are required'', app)"
  using assms
  by (auto simp: verifyOTPInRedis_def map_index_def handleVerifyOTP_def)

theorem verifyOTPInRedis_absent_empty_code_witness:
  "fst (verifyOTPInRedis 0 ''+1234567890'' [] Map.empty) = None
   \<and> fst (verifyOTPInRedis 0 ''+1234567890'' ''0000'' Map.empty) \<noteq> None"
proof -
  have h: "redis_HGETALL 0 ''+1234567890'' Map.empty = Inr Map.empty"
    by (simp add: redis_HGETALL_def lookupKey_def)
  note t = verifyOTPInRedis_absent_empty_code [OF h, THEN conjunct1]
  from t [of "[]"] t [of "''0000''"] show ?thesis by simp
qed

section \<open>Properties of code generation\<close>


lemma length_decimal_le:
  "n < 10 ^ k \<Longrightarrow> 0 < k \<Longrightarrow> length (decimal n) \<le> k"
proof (induction n arbitrary: k rule: decimal.induct)
  case (1 n)
  show ?case
  proof (cases "n < 10")
    case True
    with "1.prems" show ?thesis
      by (subst decimal.simps) simp
  next
    case False
    with "1.prems" obtain j where k: "k = Suc j"
      by (cases k) auto
    from False "1.prems" k have j: "0 < j"
      by (cases j) auto
    from "1.prems" k have "n div 10 < 10 ^ j"
      by (simp add: less_mult_imp_div_less mult.commute)
    with "1.IH" False j have "length (decimal (n div 10)) \<le> j"
      by simp
    with False k show ?thesis
      by (subst decimal.simps) simp
  qed
qed

lemma Sprintf_04d_small:
  assumes "0 \<le> i" and "i < 1000"
  shows "length (Sprintf_04d i) = 4 \<and> hd (Sprintf_04d i) = CHR ''0''"
proof -
  have "nat i < 10 ^ 3" using assms by simp
  then have len: "length (decimal (nat i)) \<le> 3"
    by (rule length_decimal_le) simp
  then obtain j where j: "4 - length (decimal (nat i)) = Suc j"
    by (cases "4 - length (decimal (nat i))") auto
  from assms len have l: "length (Sprintf_04d i) = 4"
    by (simp add: Sprintf_04d_def)
  from assms have h: "hd (Sprintf_04d i) = CHR ''0''"
    by (simp add: Sprintf_04d_def j)
  from l h show ?thesis ..
qed

text \<open>
  C4. The code returned by \<open>generateOTP\<close> is \<open>%04d\<close> of the first byte drawn alone: the
  second byte never enters, and the reduction modulo 10000 leaves a byte as it is. Every
  code has four characters and starts with \<open>0\<close>; the largest one is \<open>0255\<close>, and
  \<open>9999\<close> is returned for no draw.
\<close>

theorem generateOTP_first_byte_only:
  "generateOTP (Inr (b0, b1)) = Some (Sprintf_04d (uint b0))
   \<and> length (Sprintf_04d (uint b0)) = 4
   \<and> hd (Sprintf_04d (uint b0)) = CHR ''0''
   \<and> generateOTP (Inr (b0, b1)) \<noteq> Some ''9999''
   \<and> generateOTP (Inr (255, 255)) = Some ''0255''"
proof -
  have b: "0 \<le> uint b0" "uint b0 < 256"
    using uint_bounded [of b0] by simp_all
  then have m: "uint b0 mod 10000 = uint b0"
    by simp
  have g: "generateOTP (Inr (b0, b1)) = Some (Sprintf_04d (uint b0))"
    by (simp add: generateOTP_def m)
  from b have s: "length (Sprintf_04d (uint b0)) = 4 \<and> hd (Sprintf_04d (uint b0)) = CHR ''0''"
    by (intro Sprintf_04d_small) simp_all
  then have n: "Sprintf_04d (uint b0) \<noteq> ''9999''"
    by auto
  have top: "generateOTP (Inr (255, 255)) = Some ''0255''"
    by (simp add: generateOTP_def Sprintf_04d_def decimal.simps digit_char_def char_of_def
        bit_Suc_0_iff)
  from g s n top show ?thesis by simp
qed

theorem generateOTP_first_byte_only_witness:
  "generateOTP (Inr (7, 200)) = Some ''0007'' \<and> generateOTP (Inr (7, 200)) \<noteq> Some ''9999''"
proof -
  have d: "decimal 7 = ''7''"
    by (simp add: decimal.simps digit_char_def char_of_def bit_Suc_0_iff)
  have r: "replicate 3 c = [c, c, c]" for c :: char
    by (simp add: numeral_3_eq_3)
  have "Sprintf_04d (uint (7 :: 8 word)) = ''0007''"
    by (simp add: Sprintf_04d_def d r)
  with generateOTP_first_byte_only [of 7 200] show ?thesis by simp
qed

section \<open>Properties of registration\<close>

lemma find_append_single:
  "find P (xs @ [x]) = (case find P xs of None \<Rightarrow> (if P x then Some x else None) | Some y \<Rightarrow> Some y)"
  by (induction xs) auto

lemma Insert_result:
  assumes "Insert dbnow u tbl = (Inr row, tbl')"
  shows "PhoneNumber row = PhoneNumber u
       \<and> find (\<lambda>r. PhoneNumber r = PhoneNumber u) (rows tbl) = None
       \<and> rows tbl' = rows tbl @ [row]"
proof -
  let ?row = "\<lparr>ID = word_of_int (next_id tbl), CreatedAt = dbnow, PhoneNumber = PhoneNumber u\<rparr>"
  from assms have none: "find (\<lambda>r. PhoneNumber r = PhoneNumber u \<or> ID r = ID ?row) (rows tbl) = None"
    and row: "row = ?row" and tbl': "rows tbl' = rows tbl @ [?row]"
    by (auto simp: Insert_def Let_def split: if_splits)
  from none have "find (\<lambda>r. PhoneNumber r = PhoneNumber u) (rows tbl) = None"
    by (auto simp: find_None_iff)
  with row tbl' show ?thesis by simp
qed

lemma Insert_conflict:
  assumes "find (\<lambda>r. PhoneNumber r = PhoneNumber u) (rows tbl) = Some r0"
    and "next_id tbl \<le> 2 ^ 63 - 1"
  shows "Insert dbnow u tbl = (Inl UniqueViolation, tbl\<lparr>next_id := next_id tbl + 1\<rparr>)"
proof -
  from assms(1) have "r0 \<in> set (rows tbl)" and "PhoneNumber r0 = PhoneNumber u"
    by (auto simp: find_Some_iff)
  then have "find (\<lambda>r. PhoneNumber r = PhoneNumber u \<or> ID r = w) (rows tbl) \<noteq> None" for w
    by (auto simp: find_None_iff)
  with assms(2) show ?thesis
    by (simp add: Insert_def Let_def)
qed

lemma Insert_rows:
  "rows (snd (Insert dbnow u tbl)) = rows tbl \<or>
   (find (\<lambda>r. PhoneNumber r = PhoneNumber u) (rows tbl) = None \<and>
    (\<exists>row. PhoneNumber row = PhoneNumber u \<and> rows (snd (Insert dbnow u tbl)) = rows tbl @ [row]))"
proof (cases "Insert dbnow u tbl")
  case (Pair res tbl')
  show ?thesis
  proof (cases res)
    case (Inl e)
    with Pair have "rows tbl' = rows tbl"
      by (auto simp: Insert_def Let_def split: if_splits)
    with Pair show ?thesis by simp
  next
    case (Inr row)
    with Pair Insert_result [of dbnow u tbl row tbl'] show ?thesis by auto
  qed
qed

lemma Insert_distinct:
  assumes "distinct (map PhoneNumber (rows tbl))"
  shows "distinct (map PhoneNumber (rows (snd (Insert dbnow u tbl))))"
proof -
  from Insert_rows [of dbnow u tbl] show ?thesis
  proof (elim disjE conjE exE)
    assume "rows (snd (Insert dbnow u tbl)) = rows tbl"
    with assms show ?thesis by simp
  next
    fix row
    assume none: "find (\<lambda>r. PhoneNumber r = PhoneNumber u) (rows tbl) = None"
      and row: "PhoneNumber row = PhoneNumber u"
      and app: "rows (snd (Insert dbnow u tbl)) = rows tbl @ [row]"
    from none have "PhoneNumber u \<notin> PhoneNumber ` set (rows tbl)"
      by (force simp: find_None_iff)
    with assms row app show ?thesis by simp
  qed
qed

lemma createUserIfNotExists_found:
  assumes "GetByPhoneNumber phone tbl = Inr u"
  shows "createUserIfNotExists dbnow conc phone tbl = (Inr u, tbl)"
  using assms by (simp add: createUserIfNotExists_def)

lemma createUserIfNotExists_conflict:
  assumes "GetByPhoneNumber phone tbl = Inl e"
    and "GetByPhoneNumber phone (conc tbl) = Inr u'"
    and "next_id (conc tbl) \<le> 2 ^ 63 - 1"
  shows "createUserIfNotExists dbnow conc phone tbl =
           (Inl (FailedToCreateUser UniqueViolation), (conc tbl)\<lparr>next_id := next_id (conc tbl) + 1\<rparr>)"
proof -
  from assms(2) have "find (\<lambda>r. PhoneNumber r = phone) (rows (conc tbl)) = Some u'"
    by (auto simp: GetByPhoneNumber_def split: option.splits)
  then have "Insert dbnow \<lparr>ID = 0, CreatedAt = 0, PhoneNumber = phone\<rparr> (conc tbl) =
               (Inl UniqueViolation, (conc tbl)\<lparr>next_id := next_id (conc tbl) + 1\<rparr>)"
    using assms(3) by (intro Insert_conflict) simp_all
  with assms(1) show ?thesis
    by (simp add: createUserIfNotExists_def)
qed

lemma createUserIfNotExists_then_found:
  assumes "createUserIfNotExists dbnow conc phone tbl = (Inr u, tbl')"
  shows "GetByPhoneNumber phone tbl' = Inr u"
proof (cases "GetByPhoneNumber phone tbl")
  case (Inr u0)
  with assms show ?thesis
    by (simp add: createUserIfNotExists_def)
next
  case (Inl e)
  with assms have ins: "Insert dbnow \<lparr>ID = 0, CreatedAt = 0, PhoneNumber = phone\<rparr> (conc tbl) = (Inr u, tbl')"
    by (auto simp: createUserIfNotExists_def split: prod.splits sum.splits)
  from Insert_result [OF ins] show ?thesis
    by (simp add: GetByPhoneNumber_def find_append_single)
qed

lemma createUserIfNotExists_distinct:
  assumes "distinct (map PhoneNumber (rows (conc tbl)))" and "distinct (map PhoneNumber (rows tbl))"
  shows "distinct (map PhoneNumber (rows (snd (createUserIfNotExists dbnow conc phone tbl))))"
proof (cases "GetByPhoneNumber phone tbl")
  case (Inr u0)
  with assms(2) show ?thesis
    by (simp add: createUserIfNotExists_def)
next
  case (Inl e)
  let ?i = "Insert dbnow \<lparr>ID = 0, CreatedAt = 0, PhoneNumber = phone\<rparr> (conc tbl)"
  from Inl have "snd (createUserIfNotExists dbnow conc phone tbl) = snd ?i"
    by (simp add: createUserIfNotExists_def split: prod.splits sum.splits)
  with Insert_distinct [OF assms(1)] show ?thesis by simp
qed

text \<open>
  C5, as the code has it. When the lookup finds the phone number, \<open>createUserIfNotExists\<close>
  returns that identity, with no error and no change to the table, whatever runs beside it;
  a call that succeeded is followed by calls that return the same identity. When the lookup
  misses and another flow commits the phone number before the insert, the insert fails on
  the uniqueness constraint and the function returns that failure to its caller. In every
  case the phone numbers of the table stay pairwise different.
\<close>

theorem createUserIfNotExists_idempotent_without_race:
  "(GetByPhoneNumber phone tbl = Inr u \<longrightarrow>
      createUserIfNotExists dbnow conc phone tbl = (Inr u, tbl))
   \<and> (createUserIfNotExists dbnow conc phone tbl = (Inr u, tbl') \<longrightarrow>
      createUserIfNotExists dbnow' conc' phone tbl' = (Inr u, tbl'))
   \<and> (GetByPhoneNumber phone tbl = Inl e \<and> GetByPhoneNumber phone (conc tbl) = Inr u'
        \<and> next_id (conc tbl) \<le> 2 ^ 63 - 1 \<longrightarrow>
      createUserIfNotExists dbnow conc phone tbl =
        (Inl (FailedToCreateUser UniqueViolation), (conc tbl)\<lparr>next_id := next_id (conc tbl) + 1\<rparr>))
   \<and> (distinct (map PhoneNumber (rows tbl)) \<and> distinct (map PhoneNumber (rows (conc tbl))) \<longrightarrow>
      distinct (map PhoneNumber (rows (snd (createUserIfNotExists dbnow conc phone tbl)))))"
proof (intro conjI impI)
  assume "GetByPhoneNumber phone tbl = Inr u"
  then show "createUserIfNotExists dbnow conc phone tbl = (Inr u, tbl)"
    by (rule createUserIfNotExists_found)
next
  assume "createUserIfNotExists dbnow conc phone tbl = (Inr u, tbl')"
  then have "GetByPhoneNumber phone tbl' = Inr u"
    by (rule createUserIfNotExists_then_found)
  then show "createUserIfNotExists dbnow' conc' phone tbl' = (Inr u, tbl')"
    by (rule createUserIfNotExists_found)
next
  assume "GetByPhoneNumber phone tbl = Inl e \<and> GetByPhoneNumber phone (conc tbl) = Inr u'
            \<and> next_id (conc tbl) \<le> 2 ^ 63 - 1"
  then show "createUserIfNotExists dbnow conc phone tbl =
        (Inl (FailedToCreateUser UniqueViolation), (conc tbl)\<lparr>next_id := next_id (conc tbl) + 1\<rparr>)"
    using createUserIfNotExists_conflict by blast
next
  assume "distinct (map PhoneNumber (rows tbl)) \<and> distinct (map PhoneNumber (rows (conc tbl)))"
  then show "distinct (map PhoneNumber (rows (snd (createUserIfNotExists dbnow conc phone tbl))))"
    using createUserIfNotExists_distinct by blast
qed

theorem createUserIfNotExists_idempotent_without_race_witness:
  "createUserIfNotExists 5 id ''+1234567890''
      \<lparr>rows = [\<lparr>ID = 1, CreatedAt = 1, PhoneNumber = ''+1234567890''\<rparr>], next_id = 2\<rparr> =
     (Inr \<lparr>ID = 1, CreatedAt = 1, PhoneNumber = ''+1234567890''\<rparr>,
      \<lparr>rows = [\<lparr>ID = 1, CreatedAt = 1, PhoneNumber = ''+1234567890''\<rparr>], next_id = 2\<rparr>)
   \<and> createUserIfNotExists 9 id ''+1234567890''
        (snd (createUserIfNotExists 1 id ''+1234567890'' \<lparr>rows = [], next_id = 1\<rparr>)) =
     (Inr \<lparr>ID = 1, CreatedAt = 1, PhoneNumber = ''+1234567890''\<rparr>,
      \<lparr>rows = [\<lparr>ID = 1, CreatedAt = 1, PhoneNumber = ''+1234567890''\<rparr>], next_id = 2\<rparr>)
   \<and> createUserIfNotExists 2 (other_signup 1 ''+1234567890'') ''+1234567890'' \<lparr>rows = [], next_id = 1\<rparr> =
     (Inl (FailedToCreateUser UniqueViolation),
      \<lparr>rows = [\<lparr>ID = 1, CreatedAt = 1, PhoneNumber = ''+1234567890''\<rparr>], next_id = 3\<rparr>)
   \<and> distinct (map PhoneNumber (rows (snd
        (createUserIfNotExists 2 (other_signup 1 ''+1234567890'') ''+1234567890''
           \<lparr>rows = [], next_id = 1\<rparr>))))"
proof -
  let ?p = "''+1234567890''"
  let ?u = "\<lparr>ID = 1, CreatedAt = 1, PhoneNumber = ?p\<rparr>"
  let ?t0 = "\<lparr>rows = [], next_id = 1\<rparr>"
  let ?t1 = "\<lparr>rows = [?u], next_id = 2\<rparr>"
  have found: "GetByPhoneNumber ?p ?t1 = Inr ?u"
    by (simp add: GetByPhoneNumber_def)
  have other: "other_signup 1 ?p ?t0 = ?t1"
    by (simp add: other_signup_def Insert_def Let_def)
  have miss: "GetByPhoneNumber ?p ?t0 = Inl ErrNoRows"
    by (simp add: GetByPhoneNumber_def)
  have created: "createUserIfNotExists 1 id ?p ?t0 = (Inr ?u, ?t1)"
    by (simp add: createUserIfNotExists_def GetByPhoneNumber_def Insert_def Let_def)
  have race: "GetByPhoneNumber ?p ?t0 = Inl ErrNoRows \<and> GetByPhoneNumber ?p (other_signup 1 ?p ?t0) = Inr ?u
                \<and> next_id (other_signup 1 ?p ?t0) \<le> 2 ^ 63 - 1"
    using miss found by (simp add: other)
  have dist: "distinct (map PhoneNumber (rows ?t0)) \<and> distinct (map PhoneNumber (rows (other_signup 1 ?p ?t0)))"
    by (simp add: other)
  note claim = createUserIfNotExists_idempotent_without_race
  have a: "createUserIfNotExists 5 id ?p ?t1 = (Inr ?u, ?t1)"
    using claim [THEN conjunct1, of ?p ?t1 ?u 5 id] found by blast
  have b: "createUserIfNotExists 9 id ?p ?t1 = (Inr ?u, ?t1)"
    using claim [THEN conjunct2, THEN conjunct1, of 1 id ?p ?t0 ?u ?t1 9 id] created by blast
  have c: "createUserIfNotExists 2 (other_signup 1 ?p) ?p ?t0 =
             (Inl (FailedToCreateUser UniqueViolation),
              (other_signup 1 ?p ?t0)\<lparr>next_id := next_id (other_signup 1 ?p ?t0) + 1\<rparr>)"
    using claim [THEN conjunct2, THEN conjunct2, THEN conjunct1,
                 of ?p ?t0 ErrNoRows "other_signup 1 ?p" ?u 2] race by blast
  have d: "distinct (map PhoneNumber (rows (snd (createUserIfNotExists 2 (other_signup 1 ?p) ?p ?t0))))"
    using claim [THEN conjunct2, THEN conjunct2, THEN conjunct2,
                 of ?t0 "other_signup 1 ?p" 2 ?p] dist by blast
  from a b c d show ?thesis by (simp add: other created)
qed

theorem createUserIfNotExists_race_counterexample:
  "GetByPhoneNumber ''+1234567890'' (other_signup 1 ''+1234567890'' \<lparr>rows = [], next_id = 1\<rparr>) =
     Inr \<lparr>ID = 1, CreatedAt = 1, PhoneNumber = ''+1234567890''\<rparr>
   \<and> fst (createUserIfNotExists 2 (other_signup 1 ''+1234567890'') ''+1234567890''
           \<lparr>rows = [], next_id = 1\<rparr>) = Inl (FailedToCreateUser UniqueViolation)"
  by (simp add: createUserIfNotExists_def GetByPhoneNumber_def other_signup_def Insert_def Let_def)

section \<open>Properties of bearer tokens and the middleware\<close>

subsection \<open>Decimal strings read back\<close>










subsection \<open>The Authorization header\<close>

lemma SplitN2_Bearer: "SplitN2 (''Bearer '' @ t) = [''Bearer'', t]"
  by (simp add: SplitN2_def)

lemma SplitN2_Bearer_iff:
  "(length (SplitN2 a) = 2 \<and> SplitN2 a ! 0 = ''Bearer'') = (take 7 a = ''Bearer '')"
proof
  assume "take 7 a = ''Bearer ''"
  then have "a = ''Bearer '' @ drop 7 a"
    by (metis append_take_drop_id)
  then have "SplitN2 a = [''Bearer'', drop 7 a]"
    using SplitN2_Bearer [of "drop 7 a"] by simp
  then show "length (SplitN2 a) = 2 \<and> SplitN2 a ! 0 = ''Bearer''"
    by simp
next
  let ?P = "\<lambda>c. c \<noteq> CHR '' ''"
  assume h: "length (SplitN2 a) = 2 \<and> SplitN2 a ! 0 = ''Bearer''"
  then have sp: "CHR '' '' \<in> set a"
    by (auto simp: SplitN2_def split: if_splits)
  with h have tw: "takeWhile ?P a = ''Bearer''"
    by (simp add: SplitN2_def)
  from sp have ne: "dropWhile ?P a \<noteq> []"
    by (simp add: dropWhile_eq_Nil_conv)
  then have "hd (dropWhile ?P a) = CHR '' ''"
    using hd_dropWhile [of ?P a] by simp
  with ne obtain rest where dw: "dropWhile ?P a = CHR '' '' # rest"
    by (cases "dropWhile ?P a") auto
  have "a = takeWhile ?P a @ dropWhile ?P a" by simp
  with tw dw have "a = ''Bearer '' @ rest" by simp
  then show "take 7 a = ''Bearer ''" by simp
qed

lemma SplitN2_token: "take 7 a = ''Bearer '' \<Longrightarrow> SplitN2 a ! 1 = drop 7 a"
proof -
  assume "take 7 a = ''Bearer ''"
  then have "a = ''Bearer '' @ drop 7 a"
    by (metis append_take_drop_id)
  then have "SplitN2 a = [''Bearer'', drop 7 a]"
    using SplitN2_Bearer [of "drop 7 a"] by simp
  then show ?thesis by simp
qed

subsection \<open>The middleware, case by case\<close>

lemma authenticate_anonymous:
  assumes "Authorization r = []"
  shows "authenticate lib app now nx w r =
           nx (Header_Add ''Vary'' ''Authorization'' w) (contextSetUser r AnonymousUser)"
  using assms by (simp add: authenticate_def)

lemma authenticate_not_bearer:
  assumes "Authorization r \<noteq> []" and "take 7 (Authorization r) \<noteq> ''Bearer ''"
  shows "authenticate lib app now nx w r =
           Done (errorResponse (Header_Add ''Vary'' ''Authorization'' w) 401 ''Invalid authorization header'')"
proof -
  from assms(2) have "length (SplitN2 (Authorization r)) \<noteq> 2 \<or> SplitN2 (Authorization r) ! 0 \<noteq> ''Bearer''"
    using SplitN2_Bearer_iff [of "Authorization r"] by blast
  with assms(1) show ?thesis
    by (simp add: authenticate_def Let_def)
qed

lemma authenticate_bearer:
  assumes "take 7 (Authorization r) = ''Bearer ''"
  shows "authenticate lib app now nx w r =
     (case ParseWithClaims lib now (drop 7 (Authorization r)) (keyFunc (jwtSecret app)) of
        Inl err \<Rightarrow> Done (errorResponse (Header_Add ''Vary'' ''Authorization'' w) 401 ''Invalid or expired token'')
      | Inr parsed \<Rightarrow>
          if Subject (Claims parsed) = []
          then Done (errorResponse (Header_Add ''Vary'' ''Authorization'' w) 401 ''Invalid token claims'')
          else
            (case ParseInt (Subject (Claims parsed)) of
               Inl err \<Rightarrow> Done (errorResponse (Header_Add ''Vary'' ''Authorization'' w) 401 ''Invalid token subject'')
             | Inr userID \<Rightarrow>
                 (case GetByID userID (models app) of
                    Inl err \<Rightarrow> Done (errorResponse (Header_Add ''Vary'' ''Authorization'' w) 401 ''User not found'')
                  | Inr u \<Rightarrow> nx (Header_Add ''Vary'' ''Authorization'' w) (contextSetUser r (StoredUser u)))))"
proof -
  from assms have ne: "Authorization r \<noteq> []" by auto
  from assms have sp: "length (SplitN2 (Authorization r)) = 2" "SplitN2 (Authorization r) ! 0 = ''Bearer''"
    using SplitN2_Bearer_iff [of "Authorization r"] by blast+
  have tk: "SplitN2 (Authorization r) ! 1 = drop 7 (Authorization r)"
    using assms by (rule SplitN2_token)
  show ?thesis
    unfolding authenticate_def Let_def
    by (simp only: ne sp tk if_False not_False_eq_True simp_thms)
qed

lemma ParseWithClaims_ok_iff:
  "(ParseWithClaims lib now s (keyFunc secret) = Inr tok) =
     (decode lib s = Some tok \<and> is_HMAC (Method tok)
      \<and> Signature tok = hmac lib (Method tok) secret (Method tok, Claims tok)
      \<and> Validate now (Claims tok))"
  by (auto simp: ParseWithClaims_def keyFunc_def split: option.splits)

lemma ParseInt_empty: "ParseInt [] = Inl ErrSyntax"
  by (simp add: ParseInt_def)

lemma authenticate_accepts:
  assumes "bearer_user lib app now (Authorization r) = Some u"
  shows "authenticate lib app now nx w r =
           nx (Header_Add ''Vary'' ''Authorization'' w) (contextSetUser r (StoredUser u))"
proof -
  let ?a = "Authorization r"
  from assms have b: "take 7 ?a = ''Bearer ''"
    by (auto simp: bearer_user_def split: if_splits)
  with assms obtain tok uid where
    d: "decode lib (drop 7 ?a) = Some tok"
    and v: "is_HMAC (Method tok)"
      "Signature tok = hmac lib (Method tok) (jwtSecret app) (Method tok, Claims tok)"
      "Validate now (Claims tok)"
    and p: "ParseInt (Subject (Claims tok)) = Inr uid"
    and g: "GetByID uid (models app) = Inr u"
    by (auto simp: bearer_user_def split: if_splits option.splits sum.splits)
  from d v have pw: "ParseWithClaims lib now (drop 7 ?a) (keyFunc (jwtSecret app)) = Inr tok"
    by (simp add: ParseWithClaims_ok_iff)
  from p have s: "Subject (Claims tok) \<noteq> []"
    using ParseInt_empty by auto
  show ?thesis
    by (simp add: authenticate_bearer [OF b] pw s p g)
qed

lemma authenticate_rejects:
  assumes "Authorization r \<noteq> []" and "bearer_user lib app now (Authorization r) = None"
  shows "\<exists>msg. \<forall>nx. authenticate lib app now nx w r =
           Done (errorResponse (Header_Add ''Vary'' ''Authorization'' w) 401 msg)"
proof (cases "take 7 (Authorization r) = ''Bearer ''")
  case False
  with assms(1) show ?thesis
    using authenticate_not_bearer by blast
next
  case True
  let ?a = "Authorization r"
  let ?w = "Header_Add ''Vary'' ''Authorization'' w"
  note ab = authenticate_bearer [OF True]
  show ?thesis
  proof (cases "ParseWithClaims lib now (drop 7 ?a) (keyFunc (jwtSecret app))")
    case (Inl e)
    then have "\<forall>nx. authenticate lib app now nx w r = Done (errorResponse ?w 401 ''Invalid or expired token'')"
      by (simp add: ab)
    then show ?thesis ..
  next
    case (Inr tok)
    then have ok: "decode lib (drop 7 ?a) = Some tok" "is_HMAC (Method tok)"
      "Signature tok = hmac lib (Method tok) (jwtSecret app) (Method tok, Claims tok)"
      "Validate now (Claims tok)"
      by (simp_all add: ParseWithClaims_ok_iff)
    show ?thesis
    proof (cases "ParseInt (Subject (Claims tok))")
      case e: (Inl err)
      show ?thesis
      proof (cases "Subject (Claims tok) = []")
        case True
        with Inr have "\<forall>nx. authenticate lib app now nx w r = Done (errorResponse ?w 401 ''Invalid token claims'')"
          by (simp add: ab)
        then show ?thesis ..
      next
        case False
        with Inr e have "\<forall>nx. authenticate lib app now nx w r = Done (errorResponse ?w 401 ''Invalid token subject'')"
          by (simp add: ab)
        then show ?thesis ..
      qed
    next
      case p: (Inr uid)
      then have s: "Subject (Claims tok) \<noteq> []"
        using ParseInt_empty by auto
      from assms(2) True ok p have "\<exists>e. GetByID uid (models app) = Inl e"
        by (cases "GetByID uid (models app)") (auto simp: bearer_user_def)
      with Inr p s have "\<forall>nx. authenticate lib app now nx w r = Done (errorResponse ?w 401 ''User not found'')"
        by (auto simp: ab)
      then show ?thesis ..
    qed
  qed
qed

lemma bearer_user_empty: "bearer_user lib app now [] = None"
  by (simp add: bearer_user_def)

lemma requireAuthenticatedUser_anonymous:
  "requireAuthenticatedUser next w (contextSetUser r AnonymousUser) = Done (errorResponse w 401 ''Unauthorized'')"
  by (simp add: requireAuthenticatedUser_def contextSetUser_def)

lemma requireAuthenticatedUser_stored:
  "requireAuthenticatedUser next w (contextSetUser r (StoredUser u)) = next w (contextSetUser r (StoredUser u))"
  by (simp add: requireAuthenticatedUser_def contextSetUser_def)

subsection \<open>The protected route\<close>

text \<open>
  C9. A protected route is \<open>authenticate\<close> around \<open>requireAuthenticatedUser\<close> around the
  handler. The handler runs exactly when the request carries a bearer credential that
  stands for a user of the table, and then it runs on the request with that user in its
  context. Otherwise the answer is a 401 that does not depend on the handler: with a
  header that is present but unacceptable, \<open>authenticate\<close> itself answers, whatever it
  wraps; with no header, \<open>authenticate\<close> passes the request on as the anonymous user and
  the guard answers.
\<close>

theorem protected_handler_needs_valid_bearer:
  "(bearer_user lib app now (Authorization r) = Some u \<longrightarrow>
      authenticate lib app now (requireAuthenticatedUser next) w r =
        next (Header_Add ''Vary'' ''Authorization'' w) (contextSetUser r (StoredUser u)))
   \<and> (bearer_user lib app now (Authorization r) = None \<longrightarrow>
      (\<exists>msg. \<forall>nx. authenticate lib app now (requireAuthenticatedUser nx) w r =
         Done (errorResponse (Header_Add ''Vary'' ''Authorization'' w) 401 msg)))
   \<and> (Authorization r \<noteq> [] \<and> bearer_user lib app now (Authorization r) = None \<longrightarrow>
      (\<exists>msg. \<forall>nx. authenticate lib app now nx w r =
         Done (errorResponse (Header_Add ''Vary'' ''Authorization'' w) 401 msg)))
   \<and> (Authorization r = [] \<longrightarrow>
      (\<forall>nx. authenticate lib app now nx w r =
         nx (Header_Add ''Vary'' ''Authorization'' w) (contextSetUser r AnonymousUser))
      \<and> (\<forall>nx. requireAuthenticatedUser nx (Header_Add ''Vary'' ''Authorization'' w)
                (contextSetUser r AnonymousUser) =
           Done (errorResponse (Header_Add ''Vary'' ''Authorization'' w) 401 ''Unauthorized'')))"
proof (intro conjI impI allI)
  assume "bearer_user lib app now (Authorization r) = Some u"
  then show "authenticate lib app now (requireAuthenticatedUser next) w r =
        next (Header_Add ''Vary'' ''Authorization'' w) (contextSetUser r (StoredUser u))"
    by (simp add: authenticate_accepts requireAuthenticatedUser_stored)
next
  assume none: "bearer_user lib app now (Authorization r) = None"
  show "\<exists>msg. \<forall>nx. authenticate lib app now (requireAuthenticatedUser nx) w r =
         Done (errorResponse (Header_Add ''Vary'' ''Authorization'' w) 401 msg)"
  proof (cases "Authorization r = []")
    case True
    then have "\<forall>nx. authenticate lib app now (requireAuthenticatedUser nx) w r =
         Done (errorResponse (Header_Add ''Vary'' ''Authorization'' w) 401 ''Unauthorized'')"
      by (simp add: authenticate_anonymous requireAuthenticatedUser_anonymous)
    then show ?thesis ..
  next
    case False
    from authenticate_rejects [OF False none, of w] show ?thesis by blast
  qed
next
  assume "Authorization r \<noteq> [] \<and> bearer_user lib app now (Authorization r) = None"
  then show "\<exists>msg. \<forall>nx. authenticate lib app now nx w r =
         Done (errorResponse (Header_Add ''Vary'' ''Authorization'' w) 401 msg)"
    using authenticate_rejects by blast
next
  fix nx
  assume "Authorization r = []"
  then show "authenticate lib app now nx w r =
         nx (Header_Add ''Vary'' ''Authorization'' w) (contextSetUser r AnonymousUser)"
    by (rule authenticate_anonymous)
next
  fix nx
  show "requireAuthenticatedUser nx (Header_Add ''Vary'' ''Authorization'' w)
                (contextSetUser r AnonymousUser) =
           Done (errorResponse (Header_Add ''Vary'' ''Authorization'' w) 401 ''Unauthorized'')"
    by (rule requireAuthenticatedUser_anonymous)
qed

lemma example_bearer_user:
  "bearer_user (example_lib 500000000 (48 * time_Hour)) example_app 1000000000 ''Bearer h.c.s'' =
     Some example_user"
proof -
  have s: "Subject (issued_claims 500000000 1 (48 * time_Hour)) = ''1''"
    by (simp add: issued_claims_def FormatInt_def decimal.simps digit_char_def char_of_def
        bit_Suc_0_iff)
  have v: "Validate 1000000000 (issued_claims 500000000 1 (48 * time_Hour))"
    by (simp add: Validate_def issued_claims_def NewNumericDate_def time_Hour_def time_Second_def)
  have p: "ParseInt ''1'' = Inr 1"
    by (simp add: ParseInt_def ParseUint_def is_digit_def)
  show ?thesis
    by (simp add: bearer_user_def example_lib_def example_app_def example_user_def is_HMAC_def
        s v p GetByID_def)
qed

theorem protected_handler_needs_valid_bearer_witness:
  "authenticate (example_lib 500000000 (48 * time_Hour)) example_app 1000000000
       (requireAuthenticatedUser example_handler) example_writer (example_request ''Bearer h.c.s'') =
     Done (writeJSON (Header_Add ''Vary'' ''Authorization'' example_writer) 200
             (ProtectedResource ''Hello'' [] 0))
   \<and> (\<exists>msg. authenticate (example_lib 500000000 (48 * time_Hour)) example_app 1000000000
       (requireAuthenticatedUser example_handler) example_writer (example_request ''Basic abc'') =
     Done (errorResponse (Header_Add ''Vary'' ''Authorization'' example_writer) 401 msg))
   \<and> (\<exists>msg. authenticate (example_lib 500000000 (48 * time_Hour)) example_app 1000000000
       example_handler example_writer (example_request ''Basic abc'') =
     Done (errorResponse (Header_Add ''Vary'' ''Authorization'' example_writer) 401 msg))
   \<and> authenticate (example_lib 500000000 (48 * time_Hour)) example_app 1000000000
       (requireAuthenticatedUser example_handler) example_writer (example_request []) =
     Done (errorResponse (Header_Add ''Vary'' ''Authorization'' example_writer) 401 ''Unauthorized'')"
proof -
  let ?lib = "example_lib 500000000 (48 * time_Hour)"
  let ?w = "Header_Add ''Vary'' ''Authorization'' example_writer"
  note claim = protected_handler_needs_valid_bearer
  have ok: "bearer_user ?lib example_app 1000000000 (Authorization (example_request ''Bearer h.c.s'')) =
              Some example_user"
    using example_bearer_user by (simp add: example_request_def)
  have bad: "Authorization (example_request ''Basic abc'') \<noteq> [] \<and>
             bearer_user ?lib example_app 1000000000 (Authorization (example_request ''Basic abc'')) = None"
    by (simp add: bearer_user_def example_request_def)
  have none: "Authorization (example_request []) = []"
    by (simp add: example_request_def)
  have a: "authenticate ?lib example_app 1000000000 (requireAuthenticatedUser example_handler)
             example_writer (example_request ''Bearer h.c.s'') =
           example_handler ?w (contextSetUser (example_request ''Bearer h.c.s'') (StoredUser example_user))"
    using claim [THEN conjunct1] ok by blast
  have b: "\<exists>msg. authenticate ?lib example_app 1000000000 (requireAuthenticatedUser example_handler)
             example_writer (example_request ''Basic abc'') = Done (errorResponse ?w 401 msg)"
  proof -
    from claim [THEN conjunct2, THEN conjunct1, of ?lib example_app 1000000000
                "example_request ''Basic abc''" example_writer] bad
    obtain msg where "\<forall>nx. authenticate ?lib example_app 1000000000 (requireAuthenticatedUser nx)
             example_writer (example_request ''Basic abc'') = Done (errorResponse ?w 401 msg)"
      by auto
    then have "authenticate ?lib example_app 1000000000 (requireAuthenticatedUser example_handler)
             example_writer (example_request ''Basic abc'') = Done (errorResponse ?w 401 msg)" ..
    then show ?thesis ..
  qed
  have c: "\<exists>msg. authenticate ?lib example_app 1000000000 example_handler
             example_writer (example_request ''Basic abc'') = Done (errorResponse ?w 401 msg)"
  proof -
    from claim [THEN conjunct2, THEN conjunct2, THEN conjunct1, of "example_request ''Basic abc''"
                ?lib example_app 1000000000 example_writer] bad
    obtain msg where "\<forall>nx. authenticate ?lib example_app 1000000000 nx
             example_writer (example_request ''Basic abc'') = Done (errorResponse ?w 401 msg)"
      by auto
    then have "authenticate ?lib example_app 1000000000 example_handler
             example_writer (example_request ''Basic abc'') = Done (errorResponse ?w 401 msg)" ..
    then show ?thesis ..
  qed
  have d: "authenticate ?lib example_app 1000000000 (requireAuthenticatedUser example_handler)
             example_writer (example_request []) = Done (errorResponse ?w 401 ''Unauthorized'')"
    using claim [THEN conjunct2, THEN conjunct2, THEN conjunct2, of "example_request []"
                 ?lib example_app 1000000000 example_writer] none by simp
  from a b c d show ?thesis
    by (simp add: example_handler_def)
qed

subsection \<open>Issue, then validate\<close>














section \<open>Requests that overlap in time\<close>

lemma otpRateLimitScript_fresh:
  assumes "lookupKey t key s = None"
  shows "otpRateLimitScript t key win s =
           (Inr [1, win], s(key \<mapsto> \<lparr>val = RInt 1, expire_at = Some (t + nat win * 1000)\<rparr>))"
  using assms by (simp add: otpRateLimitScript_def redis_EXISTS_def redis_SET_EX_def)

lemma otpRateLimitScript_live:
  assumes "lookupKey t key s = Some e"
    and "otpRateLimitScript t key win s = (Inr [c, x], s')"
  shows "\<exists>n. val e = RInt n \<and> n < 2 ^ 63 - 1 \<and> c = n + 1 \<and> s' = s(key \<mapsto> e\<lparr>val := RInt (n + 1)\<rparr>)"
proof (cases "val e")
  case (RHash h)
  with assms show ?thesis
    by (simp add: otpRateLimitScript_def redis_EXISTS_def redis_INCR_def)
next
  case (RInt n)
  with assms show ?thesis
    by (auto simp: otpRateLimitScript_def redis_EXISTS_def redis_INCR_def split: if_splits)
qed

lemma otpRateLimitScript_positive:
  assumes run: "otpRateLimitScript t key win s = (Inr [c, x], s')"
    and positive: "\<forall>e n. lookupKey t key s = Some e \<and> val e = RInt n \<longrightarrow> 1 \<le> n"
  shows "\<forall>e n. lookupKey t' key s' = Some e \<and> val e = RInt n \<longrightarrow> 1 \<le> n"
proof (cases "lookupKey t key s")
  case None
  from otpRateLimitScript_fresh [OF None, of win] run
  have "s' = s(key \<mapsto> \<lparr>val = RInt 1, expire_at = Some (t + nat win * 1000)\<rparr>)"
    by simp
  then show ?thesis
    by (auto simp: lookupKey_def split: if_splits)
next
  case (Some e0)
  from otpRateLimitScript_live [OF Some run] obtain m where
    m: "val e0 = RInt m" and s': "s' = s(key \<mapsto> e0\<lparr>val := RInt (m + 1)\<rparr>)"
    by blast
  from positive Some m have "1 \<le> m" by blast
  then show ?thesis
    unfolding s' by (auto simp: lookupKey_def split: option.splits if_splits)
qed

lemma allowOTPRequest_of_script:
  assumes "otpRateLimitScript t (''rl:otp:'' @ phone) 600 s = (Inr [c, x], s')"
  shows "allowOTPRequest t phone s = (Inr (c \<le> 3), s')"
  using assms
  by (simp add: allowOTPRequest_def otpRateLimitWindow_def time_Second_def otpRateLimitMax_def)

lemma otpRateLimitScript_twice:
  assumes first: "otpRateLimitScript t1 key 600 s = (Inr [c1, x1], s1)"
    and second: "otpRateLimitScript t2 key 600 s1 = (Inr [c2, x2], s2)"
  shows "c2 = c1 + 1 \<or> (c2 = 1 \<and> lookupKey t2 key s1 = None)"
    and "t2 \<le> t1 + window_ms
         \<and> (\<forall>e n. lookupKey t1 key s = Some e \<and> val e = RInt n \<longrightarrow> 1 \<le> n) \<longrightarrow> c1 \<noteq> c2"
proof -
  show step: "c2 = c1 + 1 \<or> (c2 = 1 \<and> lookupKey t2 key s1 = None)"
  proof (cases "lookupKey t2 key s1")
    case None
    from otpRateLimitScript_fresh [OF None, of 600] second None show ?thesis
      by simp
  next
    case e': (Some e')
    from otpRateLimitScript_live [OF e' second] obtain m where
      m: "val e' = RInt m" "c2 = m + 1"
      by blast
    have "m = c1"
    proof (cases "lookupKey t1 key s")
      case None
      from otpRateLimitScript_fresh [OF None, of 600] first
      have "c1 = 1" and "s1 = s(key \<mapsto> \<lparr>val = RInt 1, expire_at = Some (t1 + nat 600 * 1000)\<rparr>)"
        by simp_all
      with e' m show ?thesis
        by (auto simp: lookupKey_def split: if_splits)
    next
      case (Some e)
      from otpRateLimitScript_live [OF Some first] obtain n where
        "val e = RInt n" "c1 = n + 1" "s1 = s(key \<mapsto> e\<lparr>val := RInt (n + 1)\<rparr>)"
        by blast
      with e' m show ?thesis
        by (auto simp: lookupKey_def split: option.splits if_splits)
    qed
    with m show ?thesis by simp
  qed
  show "t2 \<le> t1 + window_ms
        \<and> (\<forall>e n. lookupKey t1 key s = Some e \<and> val e = RInt n \<longrightarrow> 1 \<le> n) \<longrightarrow> c1 \<noteq> c2"
  proof (intro impI, elim conjE)
    assume near: "t2 \<le> t1 + window_ms"
      and positive: "\<forall>e n. lookupKey t1 key s = Some e \<and> val e = RInt n \<longrightarrow> 1 \<le> n"
    show "c1 \<noteq> c2"
    proof (cases "lookupKey t1 key s")
      case None
      from otpRateLimitScript_fresh [OF None, of 600] first
      have s1: "s1 = s(key \<mapsto> \<lparr>val = RInt 1, expire_at = Some (t1 + nat 600 * 1000)\<rparr>)"
        by simp
      from near have "lookupKey t2 key s1 \<noteq> None"
        unfolding s1 by (simp add: lookupKey_def window_ms_def)
      with step show ?thesis by auto
    next
      case (Some e)
      from otpRateLimitScript_live [OF Some first] obtain n where
        n: "val e = RInt n" "c1 = n + 1"
        by blast
      from positive Some n have "1 \<le> n" by blast
      with n step show ?thesis by auto
    qed
  qed
qed

subsection \<open>A call is one command\<close>

lemma allowOTPRequest_client_pending: "allowOTPRequest_client phone \<noteq> Return r"
  by (simp add: allowOTPRequest_client_def Let_def)

lemma serve_allowOTPRequest_client:
  "serve t (allowOTPRequest_client phone) s =
     Some (Eval_otpRateLimitScript (''rl:otp:'' @ phone) 600,
           script_reply (fst (otpRateLimitScript t (''rl:otp:'' @ phone) 600 s)),
           Return (fst (allowOTPRequest t phone s)),
           snd (allowOTPRequest t phone s))"
  by (simp add: allowOTPRequest_client_def allowOTPRequest_def execute_def script_reply_def
      otpRateLimitWindow_def time_Second_def Let_def split: prod.splits sum.splits)

lemma allowOTPRequest_store:
  "snd (allowOTPRequest t phone s) = snd (otpRateLimitScript t (''rl:otp:'' @ phone) 600 s)"
  by (simp add: allowOTPRequest_def otpRateLimitWindow_def time_Second_def Let_def
      split: prod.splits sum.splits)

lemma interleave_allowOTPRequest_schedule:
  assumes "interleave sch (s, allowOTPRequest_client phone, allowOTPRequest_client phone, []) =
             Some (s', Return ra, Return rb, tr)"
  shows "\<exists>w1 t1 w2 t2. sch = [(w1, t1), (w2, t2)] \<and> w1 \<noteq> w2"
proof (cases sch)
  case Nil
  with assms show ?thesis
    by (simp add: allowOTPRequest_client_pending)
next
  case c1: (Cons e1 sch1)
  obtain w1 t1 where e1: "e1 = (w1, t1)" by (cases e1)
  show ?thesis
  proof (cases sch1)
    case Nil
    with assms c1 e1 show ?thesis
      by (cases w1) (simp_all add: serve_allowOTPRequest_client allowOTPRequest_client_pending)
  next
    case c2: (Cons e2 sch2)
    obtain w2 t2 where e2: "e2 = (w2, t2)" by (cases e2)
    show ?thesis
    proof (cases sch2)
      case Nil
      with assms c1 c2 e1 e2 show ?thesis
        by (cases w1; cases w2) (simp_all add: serve_allowOTPRequest_client)
    next
      case c3: (Cons e3 sch3)
      obtain w3 t3 where e3: "e3 = (w3, t3)" by (cases e3)
      from assms c1 c2 c3 e1 e2 e3 show ?thesis
        by (cases w1; cases w2; cases w3) (simp_all add: serve_allowOTPRequest_client)
    qed
  qed
qed

lemma interleave_allowOTPRequest_serial:
  assumes "interleave [(w1, t1), (w2, t2)]
             (s, allowOTPRequest_client phone, allowOTPRequest_client phone, []) =
             Some (s', Return ra, Return rb, tr)"
  shows "s' = snd (allowOTPRequest t2 phone (snd (allowOTPRequest t1 phone s)))"
    and "(ra, rb) =
           (if w1 = First
            then (fst (allowOTPRequest t1 phone s),
                  fst (allowOTPRequest t2 phone (snd (allowOTPRequest t1 phone s))))
            else (fst (allowOTPRequest t2 phone (snd (allowOTPRequest t1 phone s))),
                  fst (allowOTPRequest t1 phone s)))"
    and "replies tr =
           [script_reply (fst (otpRateLimitScript t1 (''rl:otp:'' @ phone) 600 s)),
            script_reply (fst (otpRateLimitScript t2 (''rl:otp:'' @ phone) 600
                                 (snd (allowOTPRequest t1 phone s))))]"
proof -
  let ?s1 = "snd (allowOTPRequest t1 phone s)"
  have "s' = snd (allowOTPRequest t2 phone ?s1)
      \<and> (ra, rb) =
           (if w1 = First
            then (fst (allowOTPRequest t1 phone s), fst (allowOTPRequest t2 phone ?s1))
            else (fst (allowOTPRequest t2 phone ?s1), fst (allowOTPRequest t1 phone s)))
      \<and> replies tr =
           [script_reply (fst (otpRateLimitScript t1 (''rl:otp:'' @ phone) 600 s)),
            script_reply (fst (otpRateLimitScript t2 (''rl:otp:'' @ phone) 600 ?s1))]"
  proof (cases w1)
    case First
    with assms show ?thesis
      by (cases w2) (auto simp: serve_allowOTPRequest_client replies_def)
  next
    case Second
    with assms show ?thesis
      by (cases w2) (auto simp: serve_allowOTPRequest_client replies_def)
  qed
  then show "s' = snd (allowOTPRequest t2 phone ?s1)"
    and "(ra, rb) =
           (if w1 = First
            then (fst (allowOTPRequest t1 phone s), fst (allowOTPRequest t2 phone ?s1))
            else (fst (allowOTPRequest t2 phone ?s1), fst (allowOTPRequest t1 phone s)))"
    and "replies tr =
           [script_reply (fst (otpRateLimitScript t1 (''rl:otp:'' @ phone) 600 s)),
            script_reply (fst (otpRateLimitScript t2 (''rl:otp:'' @ phone) 600 ?s1))]"
    by blast+
qed

subsection \<open>Separate commands, for comparison\<close>

lemma limiter_by_separate_calls_alone:
  "alone 3 t (limiter_by_separate_calls key win) s =
     Some (script_reply (fst (otpRateLimitScript t key win s)),
           snd (otpRateLimitScript t key win s))"
  by (simp add: limiter_by_separate_calls_def otpRateLimitScript_def execute_def
      script_reply_def redis_EXISTS_def numeral_3_eq_3 Let_def
      split: option.splits sum.splits prod.splits)

lemma limiter_by_separate_calls_loses_update:
  "map_option (\<lambda>(s', a, b, tr). (s' ''rl:otp:+1234567890'', a, b, replies tr))
     (interleave [(First, 0), (Second, 1), (First, 2), (Second, 3)]
        (Map.empty, limiter_by_separate_calls ''rl:otp:+1234567890'' 600,
         limiter_by_separate_calls ''rl:otp:+1234567890'' 600, [])) =
   Some (Some \<lparr>val = RInt 1, expire_at = Some 600003\<rparr>,
         Return (Array_Reply [1, 600]), Return (Array_Reply [1, 600]),
         [Integer_Reply 0, Integer_Reply 0, Status_OK, Status_OK])"
  by (simp add: limiter_by_separate_calls_def execute_def redis_EXISTS_def redis_SET_EX_def
      lookupKey_def replies_def)

text \<open>
  C8. \<open>allowOTPRequest\<close> sends the store one command, the script, which holds the
  existence check, the initialisation and the increment, and the server executes a script
  as one command. Take two calls for the same phone number in flight at the same time and
  any interleaving of their commands that lets both return. Then the interleaving consists
  of two commands, one of each call, and the outcome is that of the two calls made one
  after the other in the order in which the server took them: the store, the two answers
  and the two replies. The call served second finds the counter that the call served first
  left: it counts one more, or it counts 1 because that counter has expired by then. So
  two calls served within one window of each other never get the same count, that is,
  never start from the same value of the counter, provided the counter found by the first
  is one that the script wrote (it is at least 1).
\<close>

theorem allowOTPRequest_no_lost_update:
  assumes "interleave sch (s, allowOTPRequest_client phone, allowOTPRequest_client phone, []) =
             Some (s', Return ra, Return rb, tr)"
  shows "\<exists>w1 t1 w2 t2 r1 s1 r2.
           sch = [(w1, t1), (w2, t2)] \<and> w1 \<noteq> w2
         \<and> allowOTPRequest t1 phone s = (r1, s1)
         \<and> allowOTPRequest t2 phone s1 = (r2, s')
         \<and> (ra, rb) = (if w1 = First then (r1, r2) else (r2, r1))
         \<and> replies tr =
             [script_reply (fst (otpRateLimitScript t1 (''rl:otp:'' @ phone) 600 s)),
              script_reply (fst (otpRateLimitScript t2 (''rl:otp:'' @ phone) 600 s1))]
         \<and> (\<forall>c1 x1 c2 x2.
              replies tr = [Array_Reply [c1, x1], Array_Reply [c2, x2]] \<longrightarrow>
                (c2 = c1 + 1 \<or> (c2 = 1 \<and> lookupKey t2 (''rl:otp:'' @ phone) s1 = None))
              \<and> (t2 \<le> t1 + window_ms
                 \<and> (\<forall>e n. lookupKey t1 (''rl:otp:'' @ phone) s = Some e \<and> val e = RInt n
                            \<longrightarrow> 1 \<le> n)
                 \<longrightarrow> c1 \<noteq> c2))"
proof -
  let ?key = "''rl:otp:'' @ phone"
  from interleave_allowOTPRequest_schedule [OF assms] obtain w1 t1 w2 t2 where
    sch: "sch = [(w1, t1), (w2, t2)]" and ne: "w1 \<noteq> w2"
    by blast
  obtain r1 s1 where one: "allowOTPRequest t1 phone s = (r1, s1)"
    by (cases "allowOTPRequest t1 phone s")
  obtain r2 s2 where two: "allowOTPRequest t2 phone s1 = (r2, s2)"
    by (cases "allowOTPRequest t2 phone s1")
  note serial = interleave_allowOTPRequest_serial [OF assms [unfolded sch]]
  from serial(1) one two have s': "s' = s2"
    by simp
  from serial(2) one two have ans: "(ra, rb) = (if w1 = First then (r1, r2) else (r2, r1))"
    by simp
  from serial(3) one
  have rep: "replies tr =
               [script_reply (fst (otpRateLimitScript t1 ?key 600 s)),
                script_reply (fst (otpRateLimitScript t2 ?key 600 s1))]"
    by simp
  have s1: "s1 = snd (otpRateLimitScript t1 ?key 600 s)"
    using allowOTPRequest_store [of t1 phone s] one by simp
  have counts: "(c2 = c1 + 1 \<or> (c2 = 1 \<and> lookupKey t2 ?key s1 = None))
              \<and> (t2 \<le> t1 + window_ms
                 \<and> (\<forall>e n. lookupKey t1 ?key s = Some e \<and> val e = RInt n \<longrightarrow> 1 \<le> n)
                 \<longrightarrow> c1 \<noteq> c2)"
    if "replies tr = [Array_Reply [c1, x1], Array_Reply [c2, x2]]" for c1 x1 c2 x2
  proof -
    from that rep
    have a: "fst (otpRateLimitScript t1 ?key 600 s) = Inr [c1, x1]"
      and b: "fst (otpRateLimitScript t2 ?key 600 s1) = Inr [c2, x2]"
      by (simp_all add: script_reply_def split: sum.splits)
    from a s1 have first: "otpRateLimitScript t1 ?key 600 s = (Inr [c1, x1], s1)"
      by (cases "otpRateLimitScript t1 ?key 600 s") simp
    from b have second: "otpRateLimitScript t2 ?key 600 s1 =
                           (Inr [c2, x2], snd (otpRateLimitScript t2 ?key 600 s1))"
      by (cases "otpRateLimitScript t2 ?key 600 s1") simp
    from otpRateLimitScript_twice [OF first second] show ?thesis
      by blast
  qed
  from sch ne one two [unfolded s' [symmetric]] ans rep counts show ?thesis
    by blast
qed

theorem allowOTPRequest_no_lost_update_witness:
  "interleave [(Second, 0), (First, 5)]
     (Map.empty, allowOTPRequest_client ''+1234567890'', allowOTPRequest_client ''+1234567890'', []) =
     Some ([''rl:otp:+1234567890'' \<mapsto> \<lparr>val = RInt 2, expire_at = Some 600000\<rparr>],
           Return (Inr True), Return (Inr True),
           [(Second, 0, Eval_otpRateLimitScript ''rl:otp:+1234567890'' 600, Array_Reply [1, 600]),
            (First, 5, Eval_otpRateLimitScript ''rl:otp:+1234567890'' 600, Array_Reply [2, 600])])
   \<and> snd (allowOTPRequest 5 ''+1234567890'' (snd (allowOTPRequest 0 ''+1234567890'' Map.empty))) =
       [''rl:otp:+1234567890'' \<mapsto> \<lparr>val = RInt 2, expire_at = Some 600000\<rparr>]"
proof -
  let ?p = "''+1234567890''"
  let ?s2 = "[''rl:otp:+1234567890'' \<mapsto> \<lparr>val = RInt 2, expire_at = Some 600000\<rparr>]"
  let ?tr = "[(Second, 0, Eval_otpRateLimitScript ''rl:otp:+1234567890'' 600, Array_Reply [1, 600]),
              (First, 5, Eval_otpRateLimitScript ''rl:otp:+1234567890'' 600, Array_Reply [2, 600])]"
  have run: "interleave [(Second, 0), (First, 5)]
               (Map.empty, allowOTPRequest_client ?p, allowOTPRequest_client ?p, []) =
               Some (?s2, Return (Inr True), Return (Inr True), ?tr)"
    by (simp add: allowOTPRequest_client_def execute_def script_reply_def otpRateLimitScript_def
        redis_EXISTS_def redis_SET_EX_def redis_INCR_def redis_TTL_def lookupKey_def
        otpRateLimitWindow_def time_Second_def otpRateLimitMax_def Let_def)
  from allowOTPRequest_no_lost_update [OF run] obtain w1 t1 w2 t2 r1 s1 r2 where
    sch: "[(Second, 0), (First, 5)] = [(w1, t1), (w2, t2)]"
    and one: "allowOTPRequest t1 ?p Map.empty = (r1, s1)"
    and two: "allowOTPRequest t2 ?p s1 = (r2, ?s2)"
    by blast
  from sch have "t1 = 0" and "t2 = 5"
    by simp_all
  with one two
  have "snd (allowOTPRequest 5 ?p (snd (allowOTPRequest 0 ?p Map.empty))) = ?s2"
    by simp
  with run show ?thesis
    by blast
qed

end
